theory Spec2Isabelle
  imports Complex_Main "HOL-Library.Log_Nat"
begin

section \<open>Python values used by the study manager\<close>

subsection \<open>Floats\<close>

text \<open>
  A Python \<open>float\<close> is an IEEE 754 binary64 number. A finite float is modelled by the
  rational number it denotes; every arithmetic operation computes the exact rational
  result and rounds it to the nearest binary64 value, ties to even (\<open>fl\<close>).
  Negative zero is identified with zero (Python's \<open>==\<close> does the same). The JSON
  extension tokens \<open>NaN\<close> and \<open>Infinity\<close> are not values of a stored field in this
  model; an infinity can only appear as the result of a multiplication that overflows.
\<close>

text \<open>Rounding a rational to the nearest integer, ties to the even neighbour.\<close>

definition rhe :: "rat \<Rightarrow> int" where
  "rhe x = (let f = \<lfloor>x\<rfloor>; d = x - of_int f in
     if d < 1 / 2 then f else if 1 / 2 < d then f + 1 else if even f then f else f + 1)"

text \<open>The binary exponent of a positive rational: \<open>2 powi ilog2 x \<le> x < 2 powi (ilog2 x + 1)\<close>.\<close>

definition ilog2 :: "rat \<Rightarrow> int" where
  "ilog2 x = (case quotient_of x of (p, q) \<Rightarrow>
     (let e0 = bitlen p - bitlen q in if 2 powi e0 \<le> x then e0 else e0 - 1))"

text \<open>
  Rounding of a non-negative rational to binary64: 53 significant bits, spacing
  \<open>2 powi (e - 52)\<close> in the binade of exponent \<open>e\<close>, and the fixed spacing
  \<open>2 powi (- 1074)\<close> below \<open>2 powi (- 1022)\<close> (subnormal numbers).
\<close>

definition flp :: "rat \<Rightarrow> rat" where
  "flp x = (if x = 0 then 0 else
     (let q = max (ilog2 x) (- 1022) - 52 in of_int (rhe (x / 2 powi q)) * 2 powi q))"

definition fl :: "rat \<Rightarrow> rat" where
  "fl x = (if x < 0 then - flp (- x) else flp x)"

definition max_double :: rat where
  "max_double = (2 ^ 53 - 1) * 2 ^ 971"

text \<open>The float literals of \<open>study_manager.py\<close>.\<close>

definition lit_1_3 :: rat where "lit_1_3 = fl (13 / 10)"
definition lit_0_2 :: rat where "lit_0_2 = fl (2 / 10)"
definition lit_1_2 :: rat where "lit_1_2 = fl (12 / 10)"
definition lit_0_15 :: rat where "lit_0_15 = fl (15 / 100)"
definition lit_2_5 :: rat where "lit_2_5 = fl (25 / 10)"

text \<open>
  \<open>a - b\<close> and \<open>a + b\<close> on floats. The source only adds or subtracts the literals
  \<open>0.2\<close> and \<open>0.15\<close>, which cannot overflow (lemma \<open>float_small_step_in_range\<close>).
\<close>

definition float_sub :: "rat \<Rightarrow> rat \<Rightarrow> rat" where
  "float_sub a b = fl (a - b)"

definition float_add :: "rat \<Rightarrow> rat \<Rightarrow> rat" where
  "float_add a b = fl (a + b)"

text \<open>
  The result of a float multiplication: a finite float, or an infinity when the rounded
  product exceeds the largest finite float. The sign of the infinity is not recorded:
  the only consumer is \<open>int(...)\<close>, which raises \<open>OverflowError\<close> on either.
\<close>

datatype pyfloat = Finite rat | Infinite

definition float_mul :: "rat \<Rightarrow> rat \<Rightarrow> pyfloat" where
  "float_mul a b = (let y = fl (a * b) in if max_double < \<bar>y\<bar> then Infinite else Finite y)"

text \<open>\<open>x * 1.3\<close> where \<open>x\<close> may already be infinite (the literal is not zero).\<close>

definition pyfloat_mul :: "pyfloat \<Rightarrow> rat \<Rightarrow> pyfloat" where
  "pyfloat_mul x b = (case x of Infinite \<Rightarrow> Infinite | Finite a \<Rightarrow> float_mul a b)"

datatype error = ValueError string | OverflowError

text \<open>
  \<open>i * x\<close> for an \<open>int\<close> \<open>i\<close> and a float \<open>x\<close>: the integer is converted to a float
  first (correctly rounded; \<open>OverflowError\<close> when it is too large), then multiplied.
\<close>

definition float_of_int :: "int \<Rightarrow> error + rat" where
  "float_of_int i = (let y = fl (of_int i) in
     if max_double < \<bar>y\<bar> then Inl OverflowError else Inr y)"

definition int_mul_float :: "int \<Rightarrow> rat \<Rightarrow> error + pyfloat" where
  "int_mul_float i x = (case float_of_int i of Inl e \<Rightarrow> Inl e | Inr a \<Rightarrow> Inr (float_mul a x))"

text \<open>\<open>int(x)\<close>: truncation toward zero; \<open>OverflowError\<close> on an infinity.\<close>

definition trunc :: "rat \<Rightarrow> int" where
  "trunc x = (if x < 0 then - \<lfloor>- x\<rfloor> else \<lfloor>x\<rfloor>)"

definition py_int :: "pyfloat \<Rightarrow> error + int" where
  "py_int x = (case x of Infinite \<Rightarrow> Inl OverflowError | Finite a \<Rightarrow> Inr (trunc a))"

text \<open>
  \<open>round(x, 2)\<close>: the exact value of \<open>x\<close> is rounded to two decimals, ties to even, and
  the decimal result is converted back to the nearest float.
\<close>

definition round2 :: "rat \<Rightarrow> rat" where
  "round2 x = fl (of_int (rhe (x * 100)) / 100)"

subsection \<open>Dates and times\<close>

text \<open>
  A naive \<open>datetime\<close> is the number of microseconds since \<open>0001-01-01T00:00:00\<close>;
  \<open>datetime.max\<close> is the last microsecond of the year 9999. A date is the number of
  whole days since \<open>0001-01-01\<close>. ISO strings written by \<open>isoformat()\<close> and read back
  by \<open>fromisoformat()\<close> denote the same value, so a stored timestamp or date is
  modelled by the value itself: two date strings are equal exactly when the dates are.
  Every call of \<open>datetime.now()\<close> within one operation returns the same \<open>now\<close>.
\<close>

type_synonym datetime = int
type_synonym date = int

definition usec_per_day :: int where
  "usec_per_day = 86400000000"

definition max_datetime :: datetime where
  "max_datetime = 3652059 * usec_per_day - 1"

definition date_of :: "datetime \<Rightarrow> date" where
  "date_of t = t div usec_per_day"

text \<open>
  \<open>now + timedelta(days=k)\<close>: \<open>timedelta\<close> raises \<open>OverflowError\<close> when the magnitude of
  \<open>k\<close> exceeds 999999999, the addition raises it when the result leaves the years 1..9999.
\<close>

definition add_days :: "datetime \<Rightarrow> int \<Rightarrow> error + datetime" where
  "add_days now k =
     (if 999999999 < \<bar>k\<bar> then Inl OverflowError
      else (let t = now + k * usec_per_day in
            if t < 0 \<or> max_datetime < t then Inl OverflowError else Inr t))"

section \<open>Data model\<close>

text \<open>
  The JSON documents are modelled by records. A field read with \<open>.get(key, default)\<close>
  is an \<open>option\<close> whose \<open>None\<close> is the missing key; \<open>c_due\<close> is read with
  \<open>card["due"]\<close>, its \<open>None\<close> is JSON \<open>null\<close>. \<open>c_deck_id\<close> and \<open>c_deck_name\<close> are
  the keys \<open>get_due_cards\<close> adds to the cards it returns.
\<close>

record card =
  c_id :: string
  c_front :: string
  c_back :: string
  c_interval :: "int option"
  c_ease :: "rat option"
  c_due :: "datetime option"
  c_reps :: "int option"
  c_created :: datetime
  c_lastReview :: "datetime option"
  c_lastRating :: "int option"
  c_deck_id :: "string option"
  c_deck_name :: "string option"

record deck =
  d_id :: string
  d_name :: string
  d_source :: string
  d_cards :: "card list"
  d_created :: datetime

record deck_meta =
  m_id :: string
  m_name :: string
  m_source :: "string option"
  m_cardCount :: int
  m_created :: datetime

record stats =
  totalReviews :: "int option"
  streak :: "int option"
  lastStudy :: "date option"
  activity :: "(date \<rightharpoonup> int) option"

record index_doc =
  decks :: "deck_meta list"
  stats :: stats

text \<open>
  The data directory: \<open>decks.json\<close> (absent before the first write) and one file
  \<open>\<^verbatim>\<open><deck_id>.json\<close>\<close> per deck, directly in the directory. A file is modelled by the
  document it holds, the value \<open>json.loads\<close> returns for it; the JSON text and the
  file system calls are not modelled. The file of the deck id \<open>decks\<close> is the index
  itself: \<open>deck_files\<close> has no entry for that id, and \<open>delete_deck\<close>, which is defined
  for every id, unlinks the index in that case. The other operations are modelled for
  deck ids that are file stems other than \<open>decks\<close>.
\<close>

record store =
  index_file :: "index_doc option"
  deck_files :: "string \<rightharpoonup> deck"

section \<open>The deck store\<close>

definition default_index :: index_doc where
  "default_index = \<lparr>decks = [],
     stats = \<lparr>totalReviews = Some 0, streak = Some 0, lastStudy = None, activity = None\<rparr>\<rparr>"

definition load_decks :: "store \<Rightarrow> index_doc" where
  "load_decks s = (case index_file s of Some d \<Rightarrow> d | None \<Rightarrow> default_index)"

definition save_decks :: "index_doc \<Rightarrow> store \<Rightarrow> store" where
  "save_decks d s = s\<lparr>index_file := Some d\<rparr>"

definition load_deck :: "string \<Rightarrow> store \<Rightarrow> deck option" where
  "load_deck deck_id s = deck_files s deck_id"

definition save_deck :: "string \<Rightarrow> deck \<Rightarrow> store \<Rightarrow> store" where
  "save_deck deck_id deck_data s = s\<lparr>deck_files := (deck_files s)(deck_id \<mapsto> deck_data)\<rparr>"

section \<open>Deck creation\<close>

text \<open>Decimal digits of a natural number (\<open>str(i)\<close> in the card id).\<close>

fun str_of_nat :: "nat \<Rightarrow> string" where
  "str_of_nat n =
     (if n < 10 then [char_of (48 + n)] else str_of_nat (n div 10) @ [char_of (48 + n mod 10)])"

declare str_of_nat.simps [simp del]

fun init_cards :: "datetime \<Rightarrow> string \<Rightarrow> nat \<Rightarrow> (string \<times> string) list \<Rightarrow> card list" where
  "init_cards now deck_id i [] = []"
| "init_cards now deck_id i ((f, b) # cards) =
     \<lparr>c_id = deck_id @ ''-'' @ str_of_nat i, c_front = f, c_back = b,
      c_interval = Some 1, c_ease = Some lit_2_5, c_due = None, c_reps = Some 0,
      c_created = now, c_lastReview = None, c_lastRating = None,
      c_deck_id = None, c_deck_name = None\<rparr> # init_cards now deck_id (i + 1) cards"

text \<open>
  \<open>create_deck\<close>; the id computed by \<open>generate_deck_id\<close> (a slug of the name and six hex
  digits of an MD5 hash of name and time) is a parameter.
\<close>

definition create_deck ::
  "datetime \<Rightarrow> string \<Rightarrow> string \<Rightarrow> string \<Rightarrow> (string \<times> string) list \<Rightarrow> store \<Rightarrow> deck \<times> store" where
  "create_deck now deck_id name source cards s =
     (let initialized_cards = init_cards now deck_id 0 cards;
          deck_data = \<lparr>d_id = deck_id, d_name = name, d_source = source,
                       d_cards = initialized_cards, d_created = now\<rparr>;
          s1 = save_deck deck_id deck_data s;
          data = load_decks s1;
          data' = data\<lparr>decks := decks data @
                    [\<lparr>m_id = deck_id, m_name = name, m_source = Some source,
                      m_cardCount = int (length initialized_cards), m_created = now\<rparr>]\<rparr>
      in (deck_data, save_decks data' s1))"

section \<open>Due cards\<close>

definition is_due :: "datetime \<Rightarrow> card \<Rightarrow> bool" where
  "is_due now card0 = (case c_due card0 of None \<Rightarrow> True | Some d \<Rightarrow> d \<le> now)"

text \<open>The loop over the cards of one deck, appending to \<open>due_cards\<close>.\<close>

fun due_loop :: "datetime \<Rightarrow> string \<Rightarrow> string \<Rightarrow> card list \<Rightarrow> card list \<Rightarrow> card list" where
  "due_loop now did dname [] due_cards = due_cards"
| "due_loop now did dname (card0 # cards) due_cards =
     (if is_due now card0
      then due_loop now did dname cards
             (due_cards @ [card0\<lparr>c_deck_id := Some did, c_deck_name := Some dname\<rparr>])
      else due_loop now did dname cards due_cards)"

text \<open>The loop over the index entries.\<close>

fun decks_due_loop :: "datetime \<Rightarrow> store \<Rightarrow> deck_meta list \<Rightarrow> card list \<Rightarrow> card list" where
  "decks_due_loop now s [] due_cards = due_cards"
| "decks_due_loop now s (deck_meta # metas) due_cards =
     (case load_deck (m_id deck_meta) s of
        None \<Rightarrow> decks_due_loop now s metas due_cards
      | Some deck \<Rightarrow>
          decks_due_loop now s metas
            (due_loop now (m_id deck_meta) (d_name deck) (d_cards deck) due_cards))"

text \<open>\<open>if deck_id:\<close> holds for a string that is not empty; \<open>None\<close> is the default argument.\<close>

definition truthy :: "string option \<Rightarrow> bool" where
  "truthy x = (case x of None \<Rightarrow> False | Some v \<Rightarrow> v \<noteq> [])"

definition get_due_cards :: "datetime \<Rightarrow> string option \<Rightarrow> store \<Rightarrow> card list" where
  "get_due_cards now deck_id s =
     (if truthy deck_id then
        (case load_deck (the deck_id) s of
           None \<Rightarrow> []
         | Some deck \<Rightarrow> due_loop now (the deck_id) (d_name deck) (d_cards deck) [])
      else decks_due_loop now s (decks (load_decks s)) [])"

section \<open>Reviewing a card\<close>

text \<open>Lines 189 to 213: the new \<open>(interval, ease, reps)\<close>, before \<open>ease\<close> is rounded.\<close>

definition sm2 :: "int \<Rightarrow> rat \<Rightarrow> int \<Rightarrow> int \<Rightarrow> error + (int \<times> rat \<times> int)" where
  "sm2 interval ease reps rating =
     (if rating = 0 then Inr (1, max lit_1_3 (float_sub ease lit_0_2), 0)
      else
        (let reps = reps + 1 in
         if rating = 1 then
           (case int_mul_float interval lit_1_2 of
              Inl e \<Rightarrow> Inl e
            | Inr p \<Rightarrow>
                (case py_int p of
                   Inl e \<Rightarrow> Inl e
                 | Inr n \<Rightarrow> Inr (max 1 n, max lit_1_3 (float_sub ease lit_0_15), reps)))
         else if rating = 2 then
           (if reps = 1 then Inr (1, ease, reps)
            else if reps = 2 then Inr (6, ease, reps)
            else
              (case int_mul_float interval ease of
                 Inl e \<Rightarrow> Inl e
               | Inr p \<Rightarrow>
                   (case py_int p of
                      Inl e \<Rightarrow> Inl e
                    | Inr n \<Rightarrow> Inr (n, ease, reps))))
         else if rating = 3 then
           (if reps = 1 then Inr (4, float_add ease lit_0_15, reps)
            else
              (case int_mul_float interval ease of
                 Inl e \<Rightarrow> Inl e
               | Inr p \<Rightarrow>
                   (case py_int (pyfloat_mul p lit_1_3) of
                      Inl e \<Rightarrow> Inl e
                    | Inr n \<Rightarrow> Inr (n, float_add ease lit_0_15, reps))))
         else Inr (interval, ease, reps)))"

text \<open>The \<open>enumerate\<close> loop: the first card with the given id, and its index.\<close>

fun find_card :: "string \<Rightarrow> card list \<Rightarrow> nat \<Rightarrow> (nat \<times> card) option" where
  "find_card card_id [] i = None"
| "find_card card_id (c # cs) i =
     (if c_id c = card_id then Some (i, c) else find_card card_id cs (i + 1))"

definition get_interval :: "card \<Rightarrow> int" where
  "get_interval card0 = (case c_interval card0 of None \<Rightarrow> 1 | Some v \<Rightarrow> v)"

definition get_ease :: "card \<Rightarrow> rat" where
  "get_ease card0 = (case c_ease card0 of None \<Rightarrow> lit_2_5 | Some v \<Rightarrow> v)"

definition get_reps :: "card \<Rightarrow> int" where
  "get_reps card0 = (case c_reps card0 of None \<Rightarrow> 0 | Some v \<Rightarrow> v)"

definition get0 :: "int option \<Rightarrow> int" where
  "get0 x = (case x of None \<Rightarrow> 0 | Some v \<Rightarrow> v)"

text \<open>Lines 228 to 246: the statistics after one more review at \<open>now\<close>.\<close>

definition update_stats :: "datetime \<Rightarrow> stats \<Rightarrow> stats" where
  "update_stats now st =
     (let st1 = st\<lparr>totalReviews := Some (get0 (totalReviews st) + 1)\<rparr>;
          today = date_of now;
          last_study = lastStudy st1;
          st2 =
            (if last_study \<noteq> Some today then
               (case last_study of
                  Some last_date \<Rightarrow>
                    (if today - last_date = 1
                       then st1\<lparr>streak := Some (get0 (streak st1) + 1)\<rparr>
                     else if 1 < today - last_date
                       then st1\<lparr>streak := Some 1\<rparr>
                     else st1)
                | None \<Rightarrow> st1\<lparr>streak := Some 1\<rparr>)\<lparr>lastStudy := Some today\<rparr>
             else st1);
          act = (case activity st2 of None \<Rightarrow> Map.empty | Some a \<Rightarrow> a)
      in st2\<lparr>activity := Some (act(today \<mapsto> get0 (act today) + 1))\<rparr>)"

text \<open>Lines 185 to 221: the card after a review at \<open>now\<close>.\<close>

definition review_card :: "datetime \<Rightarrow> int \<Rightarrow> card \<Rightarrow> error + card" where
  "review_card now rating card0 =
     (case sm2 (get_interval card0) (get_ease card0) (get_reps card0) rating of
        Inl e \<Rightarrow> Inl e
      | Inr (interval, ease, reps) \<Rightarrow>
          (case add_days now interval of
             Inl e \<Rightarrow> Inl e
           | Inr due \<Rightarrow>
               Inr (card0\<lparr>c_interval := Some interval,
                          c_ease := Some (round2 ease),
                          c_reps := Some reps,
                          c_due := Some due,
                          c_lastReview := Some now,
                          c_lastRating := Some rating\<rparr>)))"

definition update_card ::
  "datetime \<Rightarrow> string \<Rightarrow> string \<Rightarrow> int \<Rightarrow> store \<Rightarrow> error + (card \<times> store)" where
  "update_card now deck_id card_id rating s =
     (case load_deck deck_id s of
        None \<Rightarrow> Inl (ValueError (''Deck not found: '' @ deck_id))
      | Some deck \<Rightarrow>
          (case find_card card_id (d_cards deck) 0 of
             None \<Rightarrow> Inl (ValueError (''Card not found: '' @ card_id))
           | Some (card_idx, card0) \<Rightarrow>
               (case review_card now rating card0 of
                  Inl e \<Rightarrow> Inl e
                | Inr card1 \<Rightarrow>
                    (let deck1 = deck\<lparr>d_cards := (d_cards deck)[card_idx := card1]\<rparr>;
                         s1 = save_deck deck_id deck1 s;
                         data = load_decks s1;
                         data1 = data\<lparr>stats := update_stats now (stats data)\<rparr>
                     in Inr (card1, save_decks data1 s1)))))"

text \<open>
  A sequence of reviews of one card: \<open>update_card\<close> called once per \<open>(now, rating)\<close>,
  each call on the store the previous one left, stopping at the first error. The result
  lists the cards the calls returned.
\<close>

fun review_all ::
  "string \<Rightarrow> string \<Rightarrow> (datetime \<times> int) list \<Rightarrow> store \<Rightarrow> error + (card list \<times> store)" where
  "review_all deck_id card_id [] s = Inr ([], s)"
| "review_all deck_id card_id ((now, rating) # rs) s =
     (case update_card now deck_id card_id rating s of
        Inl e \<Rightarrow> Inl e
      | Inr (c, s1) \<Rightarrow>
          (case review_all deck_id card_id rs s1 of
             Inl e \<Rightarrow> Inl e
           | Inr (cs, s2) \<Rightarrow> Inr (c # cs, s2)))"

section \<open>Dashboard\<close>

record deck_summary =
  s_id :: string
  s_name :: string
  s_source :: string
  s_cardCount :: int
  s_due :: int
  s_new :: int
  s_mastered :: int

record dashboard =
  db_totalCards :: int
  db_dueToday :: int
  db_mastered :: int
  db_streak :: int
  db_decks :: "deck_summary list"
  db_activity :: "date \<rightharpoonup> int"

text \<open>
  The loop over the cards of one deck; the state is
  \<open>(total_cards, due_today, mastered, deck_due, deck_new, deck_mastered)\<close>.
\<close>

fun card_count_loop ::
  "datetime \<Rightarrow> card list \<Rightarrow> int \<times> int \<times> int \<times> int \<times> int \<times> int \<Rightarrow>
   int \<times> int \<times> int \<times> int \<times> int \<times> int" where
  "card_count_loop now [] acc = acc"
| "card_count_loop now (card0 # cards) (total_cards, due_today, mastered, deck_due, deck_new, deck_mastered) =
     (let total_cards = total_cards + 1;
          (deck_due, deck_new, due_today) =
            (case c_due card0 of
               None \<Rightarrow> (deck_due, deck_new + 1, due_today + 1)
             | Some d \<Rightarrow>
                 (if d \<le> now then (deck_due + 1, deck_new, due_today + 1)
                  else (deck_due, deck_new, due_today)));
          (deck_mastered, mastered) =
            (if 21 < get_interval card0 then (deck_mastered + 1, mastered + 1)
             else (deck_mastered, mastered))
      in card_count_loop now cards
           (total_cards, due_today, mastered, deck_due, deck_new, deck_mastered))"

text \<open>
  The loop over the index entries; the state is
  \<open>(total_cards, due_today, mastered, deck_summaries)\<close>.
\<close>

fun deck_count_loop ::
  "datetime \<Rightarrow> store \<Rightarrow> deck_meta list \<Rightarrow> int \<times> int \<times> int \<times> deck_summary list \<Rightarrow>
   int \<times> int \<times> int \<times> deck_summary list" where
  "deck_count_loop now s [] acc = acc"
| "deck_count_loop now s (deck_meta # metas) (total_cards, due_today, mastered, deck_summaries) =
     (case load_deck (m_id deck_meta) s of
        None \<Rightarrow> deck_count_loop now s metas (total_cards, due_today, mastered, deck_summaries)
      | Some deck \<Rightarrow>
          (case card_count_loop now (d_cards deck) (total_cards, due_today, mastered, 0, 0, 0) of
             (total_cards, due_today, mastered, deck_due, deck_new, deck_mastered) \<Rightarrow>
               deck_count_loop now s metas
                 (total_cards, due_today, mastered,
                  deck_summaries @
                    [\<lparr>s_id = m_id deck_meta, s_name = m_name deck_meta,
                      s_source = (case m_source deck_meta of None \<Rightarrow> ''manual'' | Some v \<Rightarrow> v),
                      s_cardCount = int (length (d_cards deck)),
                      s_due = deck_due, s_new = deck_new, s_mastered = deck_mastered\<rparr>])))"

definition get_dashboard_data :: "datetime \<Rightarrow> store \<Rightarrow> dashboard" where
  "get_dashboard_data now s =
     (let data = load_decks s in
      case deck_count_loop now s (decks data) (0, 0, 0, []) of
        (total_cards, due_today, mastered, deck_summaries) \<Rightarrow>
          \<lparr>db_totalCards = total_cards, db_dueToday = due_today, db_mastered = mastered,
           db_streak = get0 (streak (stats data)),
           db_decks = deck_summaries,
           db_activity = (case activity (stats data) of None \<Rightarrow> Map.empty | Some a \<Rightarrow> a)\<rparr>)"

section \<open>Deleting a deck\<close>


section \<open>Invariant and example states\<close>

text \<open>The scheduling invariant of the data model: \<open>ease \<ge> 1.3\<close> and \<open>interval \<ge> 1\<close>.\<close>

definition card_ok :: "card \<Rightarrow> bool" where
  "card_ok c = (13 / 10 \<le> get_ease c \<and> 1 \<le> get_interval c)"

text \<open>
  The SM-2 table of the specification (section 4.1), over float arithmetic. The
  specification writes \<open>floor\<close> for the integer part; the parameter \<open>ipart\<close> is that
  function, so that \<open>sm2_spec floor\<close> is the table as written.
\<close>

definition sm2_spec :: "(rat \<Rightarrow> int) \<Rightarrow> int \<Rightarrow> rat \<Rightarrow> int \<Rightarrow> int \<Rightarrow> int \<times> rat \<times> int" where
  "sm2_spec ipart interval ease reps rating =
     (if rating = 0 then (1, max lit_1_3 (fl (ease - lit_0_2)), 0)
      else if rating = 1 then
        (max 1 (ipart (fl (fl (of_int interval) * lit_1_2))),
         max lit_1_3 (fl (ease - lit_0_15)), reps + 1)
      else if rating = 2 then
        (if reps + 1 = 1 then 1 else if reps + 1 = 2 then 6
         else ipart (fl (fl (of_int interval) * ease)),
         ease, reps + 1)
      else
        (if reps + 1 = 1 then 4
         else ipart (fl (fl (fl (of_int interval) * ease) * lit_1_3)),
         fl (ease + lit_0_15), reps + 1))"

text \<open>
  A card with the creation defaults written into the scheduling fields it lacks:
  \<open>interval = 1\<close>, \<open>ease = 2.5\<close>, \<open>reps = 0\<close>.
\<close>

definition with_defaults :: "card \<Rightarrow> card" where
  "with_defaults c =
     c\<lparr>c_interval := Some (case c_interval c of None \<Rightarrow> 1 | Some v \<Rightarrow> v),
       c_ease := Some (case c_ease c of None \<Rightarrow> 5 / 2 | Some v \<Rightarrow> v),
       c_reps := Some (case c_reps c of None \<Rightarrow> 0 | Some v \<Rightarrow> v)\<rparr>"


definition day :: "int \<Rightarrow> datetime" where
  "day n = n * usec_per_day"

definition ex_card :: "int option \<Rightarrow> rat option \<Rightarrow> int option \<Rightarrow> card" where
  "ex_card i e r =
     \<lparr>c_id = ''d-0'', c_front = ''front'', c_back = ''back'',
      c_interval = i, c_ease = e, c_due = None, c_reps = r,
      c_created = day 738885, c_lastReview = None, c_lastRating = None,
      c_deck_id = None, c_deck_name = None\<rparr>"

definition ex_deck :: "string \<Rightarrow> card \<Rightarrow> deck" where
  "ex_deck deck_id c =
     \<lparr>d_id = deck_id, d_name = ''Deck'', d_source = ''manual'', d_cards = [c],
      d_created = day 738885\<rparr>"

definition ex_stats :: "int \<Rightarrow> date option \<Rightarrow> stats" where
  "ex_stats n l = \<lparr>totalReviews = Some n, streak = Some n, lastStudy = l, activity = None\<rparr>"

definition ex_store :: "card \<Rightarrow> stats \<Rightarrow> store" where
  "ex_store c st =
     \<lparr>index_file = Some \<lparr>decks = [\<lparr>m_id = ''d'', m_name = ''Deck'', m_source = Some ''manual'',
                                     m_cardCount = 1, m_created = day 738885\<rparr>],
                          stats = st\<rparr>,
      deck_files = [''d'' \<mapsto> ex_deck ''d'' c]\<rparr>"

section \<open>Properties of float rounding\<close>

lemma rhe_cases:
  "rhe x = \<lfloor>x\<rfloor> \<or> rhe x = \<lfloor>x\<rfloor> + 1"
  by (simp add: rhe_def Let_def)

lemma rhe_of_int: "rhe (of_int n) = n"
  by (simp add: rhe_def Let_def)

lemma rhe_lower: "x - 1 / 2 \<le> of_int (rhe x)"
proof -
  define f where "f = \<lfloor>x\<rfloor>"
  have "of_int f \<le> x" "x < of_int f + 1" unfolding f_def by linarith+
  then show ?thesis
    unfolding rhe_def Let_def f_def [symmetric] by auto
qed

lemma rhe_upper: "of_int (rhe x) \<le> x + 1 / 2"
proof -
  define f where "f = \<lfloor>x\<rfloor>"
  have "of_int f \<le> x" "x < of_int f + 1" unfolding f_def by linarith+
  then show ?thesis
    unfolding rhe_def Let_def f_def [symmetric] by auto
qed

lemma rhe_mono:
  assumes "x \<le> y" shows "rhe x \<le> rhe y"
proof (cases "\<lfloor>x\<rfloor> = \<lfloor>y\<rfloor>")
  case True
  with assms show ?thesis
    by (auto simp add: rhe_def Let_def)
next
  case False
  with assms have "\<lfloor>x\<rfloor> + 1 \<le> \<lfloor>y\<rfloor>"
    using floor_mono [of x y] by linarith
  moreover have "rhe x \<le> \<lfloor>x\<rfloor> + 1" using rhe_cases [of x] by auto
  moreover have "\<lfloor>y\<rfloor> \<le> rhe y" using rhe_cases [of y] by auto
  ultimately show ?thesis by linarith
qed

lemma rhe_le_int: "x \<le> of_int n \<Longrightarrow> rhe x \<le> n"
  using rhe_mono [of x "of_int n"] by (simp add: rhe_of_int)

lemma rhe_ge_int: "of_int n \<le> x \<Longrightarrow> n \<le> rhe x"
  using rhe_mono [of "of_int n" x] by (simp add: rhe_of_int)

lemma ilog2_bounds:
  assumes "0 < x"
  shows "2 powi ilog2 x \<le> x" and "x < 2 powi (ilog2 x + 1)"
proof -
  obtain p q where pq: "quotient_of x = (p, q)" by (cases "quotient_of x")
  then have q: "0 < q" and x: "x = of_int p / of_int q"
    by (auto simp add: quotient_of_denom_pos quotient_of_div)
  with assms have p: "0 < p"
    by (simp add: zero_less_divide_iff)
  define lp where "lp = bitlen p"
  define lq where "lq = bitlen q"
  have lp1: "1 \<le> lp" and lq1: "1 \<le> lq"
    using p q bitlen_eq_zero_iff [of p] bitlen_eq_zero_iff [of q] bitlen_nonneg [of p] bitlen_nonneg [of q]
    unfolding lp_def lq_def by linarith+
  have bp: "2 ^ nat (lp - 1) \<le> p" "p < 2 ^ nat lp"
    using bitlen_bounds [OF p] by (simp_all add: lp_def)
  have bq: "2 ^ nat (lq - 1) \<le> q" "q < 2 ^ nat lq"
    using bitlen_bounds [OF q] by (simp_all add: lq_def)
  have rp: "(2::rat) powi (lp - 1) \<le> of_int p" "of_int p < (2::rat) powi lp"
  proof -
    have "(of_int (2 ^ nat (lp - 1)) :: rat) \<le> of_int p" using bp(1) by (simp only: of_int_le_iff)
    then show "(2::rat) powi (lp - 1) \<le> of_int p" using lp1 by (simp add: power_int_def)
    have "(of_int p :: rat) < of_int (2 ^ nat lp)" using bp(2) by (simp only: of_int_less_iff)
    then show "of_int p < (2::rat) powi lp" using lp1 by (simp add: power_int_def)
  qed
  have rq: "(2::rat) powi (lq - 1) \<le> of_int q" "of_int q < (2::rat) powi lq"
  proof -
    have "(of_int (2 ^ nat (lq - 1)) :: rat) \<le> of_int q" using bq(1) by (simp only: of_int_le_iff)
    then show "(2::rat) powi (lq - 1) \<le> of_int q" using lq1 by (simp add: power_int_def)
    have "(of_int q :: rat) < of_int (2 ^ nat lq)" using bq(2) by (simp only: of_int_less_iff)
    then show "of_int q < (2::rat) powi lq" using lq1 by (simp add: power_int_def)
  qed
  have qpos: "(0::rat) < of_int q" using q by simp
  have up: "x < 2 powi (lp - lq + 1)"
  proof -
    have "of_int p < (2::rat) powi (lp - lq + 1) * 2 powi (lq - 1)"
      using rp(2) by (simp add: power_int_add [symmetric])
    also have "\<dots> \<le> 2 powi (lp - lq + 1) * of_int q"
      using rq(1) by (intro mult_left_mono) simp_all
    finally show ?thesis using qpos by (simp add: x pos_divide_less_eq)
  qed
  have lo: "2 powi (lp - lq - 1) \<le> x"
  proof -
    have "(2::rat) powi (lp - lq - 1) * of_int q \<le> 2 powi (lp - lq - 1) * 2 powi lq"
      using rq(2) by (intro mult_left_mono) simp_all
    also have "\<dots> = 2 powi (lp - 1)"
      by (simp add: power_int_add [symmetric])
    also have "\<dots> \<le> of_int p" by (rule rp(1))
    finally show ?thesis using qpos by (simp add: x pos_le_divide_eq)
  qed
  have il: "ilog2 x = (if 2 powi (lp - lq) \<le> x then lp - lq else lp - lq - 1)"
    by (simp add: ilog2_def pq lp_def lq_def Let_def)
  show "2 powi ilog2 x \<le> x"
    using lo by (simp add: il)
  show "x < 2 powi (ilog2 x + 1)"
    using up by (auto simp add: il not_le)
qed

lemma flp_nonneg: "0 \<le> x \<Longrightarrow> 0 \<le> flp x"
proof -
  assume x: "0 \<le> x"
  show ?thesis
  proof (cases "x = 0")
    case True then show ?thesis by (simp add: flp_def)
  next
    case False
    define q where "q = max (ilog2 x) (- 1022) - 52"
    have "0 \<le> x / 2 powi q" using x by simp
    then have "0 \<le> rhe (x / 2 powi q)" using rhe_ge_int [of 0] by simp
    then show ?thesis using False by (simp add: flp_def Let_def q_def [symmetric])
  qed
qed

text \<open>Within one binade the rounded value stays between the binade's ends.\<close>

lemma flp_binade:
  assumes x: "0 < x"
  defines "q \<equiv> max (ilog2 x) (- 1022) - 52"
  shows "flp x \<le> 2 powi (q + 53)" and "- 1022 \<le> ilog2 x \<Longrightarrow> 2 powi (q + 52) \<le> flp x"
proof -
  have f: "flp x = of_int (rhe (x / 2 powi q)) * 2 powi q"
    using x by (simp add: flp_def Let_def q_def)
  have qpos: "(0::rat) < 2 powi q" by simp
  have "x < 2 powi (ilog2 x + 1)" using ilog2_bounds(2) [OF x] .
  also have "\<dots> \<le> 2 powi (q + 53)"
    by (rule power_int_increasing) (simp_all add: q_def)
  finally have "x \<le> 2 powi (q + 53)" by simp
  then have "x / 2 powi q \<le> 2 powi (q + 53) / 2 powi q"
    using qpos by (intro divide_right_mono) simp_all
  also have "\<dots> = of_int (2 ^ 53)"
    by (simp add: power_int_add)
  finally have "rhe (x / 2 powi q) \<le> 2 ^ 53" by (rule rhe_le_int)
  then have "(of_int (rhe (x / 2 powi q)) :: rat) \<le> of_int (2 ^ 53)" by (simp only: of_int_le_iff)
  then have "of_int (rhe (x / 2 powi q)) * 2 powi q \<le> (of_int (2 ^ 53) :: rat) * 2 powi q"
    using qpos by (intro mult_right_mono) simp_all
  then show "flp x \<le> 2 powi (q + 53)"
    by (simp add: f power_int_add mult.commute)
next
  assume n: "- 1022 \<le> ilog2 x"
  have f: "flp x = of_int (rhe (x / 2 powi q)) * 2 powi q"
    using x by (simp add: flp_def Let_def q_def)
  have qpos: "(0::rat) < 2 powi q" by simp
  have q52: "q + 52 = ilog2 x" using n by (simp add: q_def)
  have "of_int (2 ^ 52) = (2::rat) powi (q + 52) / 2 powi q"
    by (simp add: power_int_add)
  also have "\<dots> \<le> x / 2 powi q"
    using ilog2_bounds(1) [OF x] qpos by (intro divide_right_mono) (simp_all add: q52)
  finally have "2 ^ 52 \<le> rhe (x / 2 powi q)" by (rule rhe_ge_int)
  then have "(of_int (2 ^ 52) :: rat) \<le> of_int (rhe (x / 2 powi q))" by (simp only: of_int_le_iff)
  then have "(of_int (2 ^ 52) :: rat) * 2 powi q \<le> of_int (rhe (x / 2 powi q)) * 2 powi q"
    using qpos by (intro mult_right_mono) simp_all
  then show "2 powi (q + 52) \<le> flp x"
    by (simp add: f power_int_add mult.commute)
qed

lemma ilog2_mono:
  assumes "0 < x" "x \<le> y" shows "ilog2 x \<le> ilog2 y"
proof (rule ccontr)
  assume "\<not> ilog2 x \<le> ilog2 y"
  then have "ilog2 y + 1 \<le> ilog2 x" by simp
  then have "(2::rat) powi (ilog2 y + 1) \<le> 2 powi ilog2 x"
    by (intro power_int_increasing) simp_all
  moreover have "y < 2 powi (ilog2 y + 1)" using assms by (intro ilog2_bounds(2)) simp
  moreover have "2 powi ilog2 x \<le> x" using assms by (intro ilog2_bounds(1))
  ultimately show False using assms by linarith
qed

lemma flp_mono_pos:
  assumes x: "0 < x" and xy: "x \<le> y"
  shows "flp x \<le> flp y"
proof -
  have y: "0 < y" using x xy by simp
  define qx where "qx = max (ilog2 x) (- 1022) - 52"
  define qy where "qy = max (ilog2 y) (- 1022) - 52"
  have le: "qx \<le> qy" using ilog2_mono [OF x xy] by (simp add: qx_def qy_def)
  show ?thesis
  proof (cases "qx = qy")
    case True
    have "x / 2 powi qy \<le> y / 2 powi qy" using xy by (intro divide_right_mono) simp_all
    then have "rhe (x / 2 powi qy) \<le> rhe (y / 2 powi qy)" by (rule rhe_mono)
    then have "(of_int (rhe (x / 2 powi qy)) :: rat) \<le> of_int (rhe (y / 2 powi qy))"
      by (simp only: of_int_le_iff)
    then have "of_int (rhe (x / 2 powi qy)) * 2 powi qy \<le> of_int (rhe (y / 2 powi qy)) * (2::rat) powi qy"
      by (intro mult_right_mono) simp_all
    then show ?thesis
      using x y True by (simp add: flp_def Let_def qx_def [symmetric] qy_def [symmetric])
  next
    case False
    with le have lt: "qx + 1 \<le> qy" by simp
    then have n: "- 1022 \<le> ilog2 y" by (auto simp add: qx_def qy_def)
    have "flp x \<le> 2 powi (qx + 53)" using flp_binade(1) [OF x] by (simp add: qx_def)
    also have "\<dots> \<le> 2 powi (qy + 52)"
      using lt by (intro power_int_increasing) simp_all
    also have "\<dots> \<le> flp y" using flp_binade(2) [OF y n] by (simp add: qy_def)
    finally show ?thesis .
  qed
qed

lemma flp_mono: "0 \<le> x \<Longrightarrow> x \<le> y \<Longrightarrow> flp x \<le> flp y"
  using flp_mono_pos [of x y] flp_nonneg [of y] by (cases "x = 0") (simp_all add: flp_def)

lemma fl_minus: "fl (- x) = - fl x"
  by (simp add: fl_def flp_def)

lemma fl_mono: "x \<le> y \<Longrightarrow> fl x \<le> fl y"
proof -
  assume xy: "x \<le> y"
  consider "0 \<le> x" | "x < 0" "0 \<le> y" | "x < 0" "y < 0" by linarith
  then show ?thesis
  proof cases
    case 1 with xy show ?thesis by (simp add: fl_def flp_mono)
  next
    case 2
    have "0 \<le> flp (- x)" "0 \<le> flp y" using 2 by (simp_all add: flp_nonneg)
    with 2 show ?thesis by (simp add: fl_def)
  next
    case 3
    with xy have "flp (- y) \<le> flp (- x)" by (intro flp_mono) simp_all
    with 3 show ?thesis by (simp add: fl_def)
  qed
qed

lemma fl_abs_le: "\<bar>x\<bar> \<le> b \<Longrightarrow> \<bar>fl x\<bar> \<le> fl b"
proof -
  assume "\<bar>x\<bar> \<le> b"
  then have "x \<le> b" "- b \<le> x" by linarith+
  then have "fl x \<le> fl b" "fl (- b) \<le> fl x" by (simp_all add: fl_mono)
  then show ?thesis by (simp add: fl_minus abs_le_iff)
qed

text \<open>In the normal range the rounding error is at most half a unit in the last place.\<close>

lemma flp_error:
  assumes x: "0 < x" and n: "2 powi (- 1022) \<le> x"
  shows "\<bar>flp x - x\<bar> \<le> x / 2 ^ 53"
proof -
  have "ilog2 (2 powi (- 1022)) \<le> ilog2 x" using n by (intro ilog2_mono) simp_all
  moreover have "- 1022 \<le> ilog2 (2 powi (- 1022) :: rat)"
  proof (rule ccontr)
    assume "\<not> ?thesis"
    then have "ilog2 (2 powi (- 1022) :: rat) + 1 \<le> - 1022" by simp
    then have "(2::rat) powi (ilog2 (2 powi (- 1022)) + 1) \<le> 2 powi (- 1022)"
      by (intro power_int_increasing) simp_all
    moreover have "(2::rat) powi (- 1022) < 2 powi (ilog2 (2 powi (- 1022)) + 1)"
      by (intro ilog2_bounds(2)) simp
    ultimately show False by linarith
  qed
  ultimately have e: "- 1022 \<le> ilog2 x" by linarith
  define q where "q = ilog2 x - 52"
  have f: "flp x = of_int (rhe (x / 2 powi q)) * 2 powi q"
    using x e by (simp add: flp_def Let_def q_def max_def)
  have qpos: "(0::rat) < 2 powi q" by simp
  define z where "z = x / 2 powi q"
  have xz: "x = z * 2 powi q" by (simp add: z_def)
  have "\<bar>of_int (rhe z) - z\<bar> \<le> 1 / 2"
    using rhe_lower [of z] rhe_upper [of z] by linarith
  then have a: "\<bar>of_int (rhe z) - z\<bar> * 2 powi q \<le> 1 / 2 * 2 powi q"
    using qpos by (intro mult_right_mono) simp_all
  have b: "\<bar>flp x - x\<bar> = \<bar>of_int (rhe z) - z\<bar> * 2 powi q"
  proof -
    have "flp x - x = (of_int (rhe z) - z) * 2 powi q"
      unfolding f z_def [symmetric] using xz by (simp add: left_diff_distrib)
    then show ?thesis by (simp add: abs_mult)
  qed
  have c: "1 / 2 * (2::rat) powi q = 2 powi (q + 52) / 2 ^ 53"
    by (simp add: power_int_add)
  have "(2::rat) powi (q + 52) \<le> x"
    using ilog2_bounds(1) [OF x] by (simp add: q_def)
  then have d: "(2::rat) powi (q + 52) / 2 ^ 53 \<le> x / 2 ^ 53"
    by (intro divide_right_mono) simp_all
  show ?thesis using a b c d by linarith
qed


subsection \<open>The literals and the operations of the scheduler\<close>

lemma lit_1_3_val: "lit_1_3 = 5854679515581645 / 4503599627370496"
  unfolding lit_1_3_def by code_simp

lemma lit_0_2_val: "lit_0_2 = 3602879701896397 / 18014398509481984"
  unfolding lit_0_2_def by code_simp

lemma lit_1_2_val: "lit_1_2 = 5404319552844595 / 4503599627370496"
  unfolding lit_1_2_def by code_simp

lemma lit_0_15_val: "lit_0_15 = 5404319552844595 / 36028797018963968"
  unfolding lit_0_15_def by code_simp

lemma lit_2_5_val: "lit_2_5 = 5 / 2"
  unfolding lit_2_5_def by code_simp

lemma fl_1: "fl 1 = 1"
  by code_simp

lemma ilog2_unique:
  assumes "0 < x" "2 powi e \<le> x" "x < 2 powi (e + 1)"
  shows "ilog2 x = e"
proof (rule antisym)
  show "ilog2 x \<le> e"
  proof (rule ccontr)
    assume "\<not> ilog2 x \<le> e"
    then have "e + 1 \<le> ilog2 x" by simp
    then have "(2::rat) powi (e + 1) \<le> 2 powi ilog2 x"
      by (intro power_int_increasing) simp_all
    with ilog2_bounds(1) [OF assms(1)] assms(3) show False by linarith
  qed
  show "e \<le> ilog2 x"
  proof (rule ccontr)
    assume "\<not> e \<le> ilog2 x"
    then have "ilog2 x + 1 \<le> e" by simp
    then have "(2::rat) powi (ilog2 x + 1) \<le> 2 powi e"
      by (intro power_int_increasing) simp_all
    with ilog2_bounds(2) [OF assms(1)] assms(2) show False by linarith
  qed
qed

lemma rhe_below_half: "x < of_int n + 1 / 2 \<Longrightarrow> rhe x \<le> n"
proof -
  assume "x < of_int n + 1 / 2"
  with rhe_upper [of x] have "(of_int (rhe x) :: rat) < of_int (n + 1)" by simp
  then have "rhe x < n + 1" by (simp only: of_int_less_iff)
  then show ?thesis by simp
qed

lemma fl_max_double: "fl (max_double + 1) \<le> max_double"
proof -
  define x where "x = max_double + 1"
  have pos: "0 < x" by (simp add: x_def max_double_def)
  have "ilog2 x = 1023"
    by (rule ilog2_unique) (simp_all add: x_def max_double_def)
  then have f: "flp x = of_int (rhe (x / 2 ^ 971)) * 2 ^ 971"
    using pos by (simp add: flp_def Let_def)
  have "x / 2 ^ 971 < of_int (2 ^ 53 - 1) + 1 / 2"
    by (simp add: x_def max_double_def field_simps)
  then have "rhe (x / 2 ^ 971) \<le> 2 ^ 53 - 1" by (rule rhe_below_half)
  then have "(of_int (rhe (x / 2 ^ 971)) :: rat) \<le> of_int (2 ^ 53 - 1)"
    by (simp only: of_int_le_iff)
  then have "of_int (rhe (x / 2 ^ 971)) * 2 ^ 971 \<le> (of_int (2 ^ 53 - 1) :: rat) * 2 ^ 971"
    by (intro mult_right_mono) simp_all
  then have "flp x \<le> max_double" by (simp add: f max_double_def)
  then show ?thesis using pos by (simp add: fl_def x_def [symmetric])
qed

lemma round2_2_5: "round2 (5 / 2) = 5 / 2"
  by code_simp

lemma float_small_step_in_range:
  assumes "\<bar>a\<bar> \<le> max_double"
  shows "\<bar>float_sub a lit_0_2\<bar> \<le> max_double"
    and "\<bar>float_sub a lit_0_15\<bar> \<le> max_double"
    and "\<bar>float_add a lit_0_15\<bar> \<le> max_double"
proof -
  have "\<bar>a - lit_0_2\<bar> \<le> max_double + 1" "\<bar>a - lit_0_15\<bar> \<le> max_double + 1"
    "\<bar>a + lit_0_15\<bar> \<le> max_double + 1"
    using assms by (simp_all add: lit_0_2_val lit_0_15_val abs_le_iff)
  then show "\<bar>float_sub a lit_0_2\<bar> \<le> max_double"
    and "\<bar>float_sub a lit_0_15\<bar> \<le> max_double"
    and "\<bar>float_add a lit_0_15\<bar> \<le> max_double"
    unfolding float_sub_def float_add_def
    using fl_abs_le [of "a - lit_0_2" "max_double + 1"]
      fl_abs_le [of "a - lit_0_15" "max_double + 1"]
      fl_abs_le [of "a + lit_0_15" "max_double + 1"]
    using fl_max_double by linarith+
qed

lemma round2_ge:
  assumes "13 / 10 \<le> x" shows "lit_1_3 \<le> round2 x"
proof -
  have "of_int 130 \<le> x * 100" using assms by simp
  then have "130 \<le> rhe (x * 100)" by (rule rhe_ge_int)
  then have "(of_int 130 :: rat) \<le> of_int (rhe (x * 100))" by (simp only: of_int_le_iff)
  then have "13 / 10 \<le> (of_int (rhe (x * 100)) :: rat) / 100" by simp
  then show ?thesis unfolding lit_1_3_def round2_def by (rule fl_mono)
qed

lemma fl_lower:
  assumes "1 \<le> x"
  shows "x * (1 - 1 / 2 ^ 53) \<le> fl x"
proof -
  have "(2::rat) powi (- 1022) \<le> 2 powi 0" by (intro power_int_increasing) simp_all
  then have "2 powi (- 1022) \<le> x" using assms by simp
  moreover have "0 < x" using assms by simp
  ultimately have "\<bar>flp x - x\<bar> \<le> x / 2 ^ 53" by (intro flp_error)
  then have "x - x / 2 ^ 53 \<le> flp x" by linarith
  moreover have "fl x = flp x" using assms by (simp add: fl_def)
  moreover have "x * (1 - 1 / 2 ^ 53) = x - x / 2 ^ 53" by (simp add: algebra_simps)
  ultimately show ?thesis by (simp only:)
qed

lemma trunc_ge: "of_int n \<le> x \<Longrightarrow> 0 \<le> n \<Longrightarrow> n \<le> trunc x"
  by (simp add: trunc_def le_floor_iff)


lemma lit_1_3_ge: "13 / 10 \<le> lit_1_3"
  by (simp add: lit_1_3_val)

lemma sm2_ease_floor:
  assumes "sm2 i e r rating = Inr (i', e', r')" and "13 / 10 \<le> e"
  shows "13 / 10 \<le> e'"
proof -
  have a: "13 / 10 \<le> max lit_1_3 y" for y using lit_1_3_ge by (simp add: max_def)
  have "13 / 10 \<le> e + lit_0_15" using assms(2) by (simp add: lit_0_15_val)
  then have "fl (13 / 10) \<le> fl (e + lit_0_15)" by (rule fl_mono)
  then have b: "13 / 10 \<le> float_add e lit_0_15"
    using lit_1_3_ge by (simp add: float_add_def lit_1_3_def)
  show ?thesis
    using assms a b
    by (auto simp add: sm2_def Let_def split: if_splits sum.splits)
qed

lemma grow_step:
  fixes I a e :: rat
  assumes "1 \<le> I" "I * (1 - 1 / 2 ^ 53) \<le> a" "13 / 10 \<le> e"
  shows "I \<le> a * e * (1 - 1 / 2 ^ 53)" and "1 \<le> a * e"
proof -
  define u :: rat where "u = 1 - 1 / 2 ^ 53"
  have u: "0 \<le> u" "1 \<le> u * (13 / 10) * u" "1 \<le> u * (13 / 10)" by (simp_all add: u_def)
  have I0: "0 \<le> I" using assms(1) by simp
  have "0 \<le> I * u" using I0 u(1) by (rule mult_nonneg_nonneg)
  then have a0: "0 \<le> a" using assms(2) unfolding u_def [symmetric] by linarith
  have s1: "a * (13 / 10) \<le> a * e" using assms(3) a0 by (rule mult_left_mono)
  have s2: "I * u * (13 / 10) \<le> a * (13 / 10)"
    using assms(2) unfolding u_def [symmetric] by (intro mult_right_mono) simp_all
  have s3: "I * u * (13 / 10) \<le> a * e" using s1 s2 by (rule order_trans [rotated])
  then have s4: "I * u * (13 / 10) * u \<le> a * e * u" using u(1) by (rule mult_right_mono)
  have "I * 1 \<le> I * (u * (13 / 10) * u)" using u(2) I0 by (rule mult_left_mono)
  then have s5: "I \<le> I * u * (13 / 10) * u" by (simp only: mult.assoc mult_1_right)
  show "I \<le> a * e * (1 - 1 / 2 ^ 53)"
    using s5 s4 unfolding u_def [symmetric] by (rule order_trans)
  have "I * 1 \<le> I * (u * (13 / 10))" using u(3) I0 by (rule mult_left_mono)
  then have "I \<le> I * u * (13 / 10)" by (simp only: mult.assoc mult_1_right)
  then show "1 \<le> a * e" using s3 assms(1) by linarith
qed

lemma int_mul_float_ge:
  assumes "int_mul_float i e = Inr (Finite y)" and "1 \<le> i" and "13 / 10 \<le> e"
  shows "of_int i \<le> y"
proof -
  define a where "a = fl (of_int i)"
  have y: "y = fl (a * e)"
    using assms(1)
    by (auto simp add: int_mul_float_def float_of_int_def float_mul_def Let_def a_def
        split: if_splits)
  have i1: "(1::rat) \<le> of_int i" using assms(2) by simp
  have a1: "of_int i * (1 - 1 / 2 ^ 53) \<le> a" unfolding a_def using i1 by (rule fl_lower)
  have "a * e * (1 - 1 / 2 ^ 53) \<le> y"
    unfolding y using grow_step(2) [OF i1 a1 assms(3)] by (rule fl_lower)
  with grow_step(1) [OF i1 a1 assms(3)] show ?thesis by linarith
qed

lemma times_1_3_ge:
  assumes "pyfloat_mul (Finite y) lit_1_3 = Finite z" and "1 \<le> y"
  shows "y \<le> z"
proof -
  define u :: rat where "u = 1 - 1 / 2 ^ 53"
  have z: "z = fl (y * lit_1_3)"
    using assms(1) by (auto simp add: pyfloat_mul_def float_mul_def Let_def split: if_splits)
  have "13 / 10 \<le> lit_1_3" by (rule lit_1_3_ge)
  then have w: "y * (13 / 10) \<le> y * lit_1_3" using assms(2) by (intro mult_left_mono) simp_all
  then have "1 \<le> y * lit_1_3" using assms(2) by linarith
  then have "y * lit_1_3 * u \<le> z" unfolding z u_def by (rule fl_lower)
  moreover have "y * (13 / 10) * u \<le> y * lit_1_3 * u"
    using w by (intro mult_right_mono) (simp_all add: u_def)
  moreover have "y * 1 \<le> y * (13 / 10 * u)"
    using assms(2) by (intro mult_left_mono) (simp_all add: u_def)
  then have "y \<le> y * (13 / 10) * u" by (simp only: mult.assoc mult_1_right)
  ultimately show ?thesis by linarith
qed

lemma py_int_Inr: "py_int p = Inr n \<longleftrightarrow> (\<exists>y. p = Finite y \<and> n = trunc y)"
  by (cases p) (auto simp add: py_int_def)

lemma int_mul_float_Infinite [simp]: "pyfloat_mul Infinite b = Infinite"
  by (simp add: pyfloat_mul_def)

text \<open>The interval after a Good or Easy review of a card with at least two repetitions.\<close>

lemma sm2_grow:
  assumes "sm2 i e r rating = Inr (i', e', r')"
    and "1 \<le> i" and "13 / 10 \<le> e"
    and "rating = 2 \<and> r \<noteq> 0 \<and> r \<noteq> 1 \<or> rating = 3 \<and> r \<noteq> 0"
  shows "i \<le> i'"
proof -
  from assms(4) show ?thesis
  proof
    assume g: "rating = 2 \<and> r \<noteq> 0 \<and> r \<noteq> 1"
    with assms(1) obtain y where "int_mul_float i e = Inr (Finite y)" "i' = trunc y"
      by (auto simp add: sm2_def Let_def py_int_Inr split: if_splits sum.splits)
    with int_mul_float_ge [OF _ assms(2,3)] assms(2) show ?thesis
      by (simp add: trunc_ge)
  next
    assume g: "rating = 3 \<and> r \<noteq> 0"
    with assms(1) obtain p z where p: "int_mul_float i e = Inr p"
      "pyfloat_mul p lit_1_3 = Finite z" "i' = trunc z"
      by (auto simp add: sm2_def Let_def py_int_Inr split: if_splits sum.splits)
    then obtain y where y: "p = Finite y" by (cases p) simp_all
    have iy: "of_int i \<le> y" using int_mul_float_ge [OF _ assms(2,3)] p(1) y by simp
    moreover have "(1::rat) \<le> of_int i" using assms(2) by simp
    ultimately have "1 \<le> y" by linarith
    then have "y \<le> z" using times_1_3_ge p(2) y by simp
    with iy have "of_int i \<le> z" by simp
    then show ?thesis using assms(2) p(3) by (simp add: trunc_ge)
  qed
qed

lemma sm2_interval_ge_1:
  assumes "sm2 i e r rating = Inr (i', e', r')"
    and "1 \<le> i" and "13 / 10 \<le> e" and "rating \<in> {0, 1, 2, 3}"
  shows "1 \<le> i'"
proof (cases "rating = 2 \<and> r \<noteq> 0 \<and> r \<noteq> 1 \<or> rating = 3 \<and> r \<noteq> 0")
  case True
  then show ?thesis using sm2_grow [OF assms(1-3)] assms(2) by simp
next
  case False
  then show ?thesis using assms(1,4)
    by (auto simp add: sm2_def Let_def split: if_splits sum.splits)
qed

section \<open>Properties of the review operation\<close>

lemma not_isl_Inr: "\<not> isl x \<Longrightarrow> x = Inr (fst (projr x), snd (projr x))"
  by (cases x) simp_all

lemma find_card_Some:
  "find_card cid cs i = Some (k, c) \<Longrightarrow>
     i \<le> k \<and> k - i < length cs \<and> cs ! (k - i) = c \<and> c_id c = cid"
proof (induction cs arbitrary: i)
  case Nil
  then show ?case by simp
next
  case (Cons a cs)
  show ?case
  proof (cases "c_id a = cid")
    case True
    with Cons.prems show ?thesis by simp
  next
    case False
    with Cons.prems have "find_card cid cs (i + 1) = Some (k, c)" by simp
    from Cons.IH [OF this] show ?thesis by (auto simp add: Suc_diff_Suc)
  qed
qed

lemma find_card_update:
  "find_card cid cs i = Some (k, c) \<Longrightarrow> c_id c' = cid \<Longrightarrow>
     find_card cid (cs[k - i := c']) i = Some (k, c')"
proof (induction cs arbitrary: i)
  case Nil
  then show ?case by simp
next
  case (Cons a cs)
  show ?case
  proof (cases "c_id a = cid")
    case True
    with Cons.prems show ?thesis by simp
  next
    case False
    with Cons.prems have f: "find_card cid cs (i + 1) = Some (k, c)" by simp
    from find_card_Some [OF f] have "i < k" by simp
    then have "k - i = Suc (k - (i + 1))" by simp
    with Cons.IH [OF f Cons.prems(2)] False show ?thesis by simp
  qed
qed

lemma review_card_id: "review_card now rating c = Inr c' \<Longrightarrow> c_id c' = c_id c"
  by (auto simp add: review_card_def split: sum.splits prod.splits)

lemma load_decks_save_deck [simp]: "load_decks (save_deck did d s) = load_decks s"
  by (simp add: load_decks_def save_deck_def)

lemma load_decks_save_decks [simp]: "load_decks (save_decks data s) = data"
  by (simp add: load_decks_def save_decks_def)

lemma load_deck_save_decks [simp]: "load_deck did (save_decks data s) = load_deck did s"
  by (simp add: load_deck_def save_decks_def)

lemma load_deck_save_deck [simp]:
  "load_deck did (save_deck did' d s) = (if did = did' then Some d else load_deck did s)"
  by (simp add: load_deck_def save_deck_def)

lemma update_card_found:
  assumes "load_deck did s = Some d" and "find_card cid (d_cards d) 0 = Some (k, c)"
  shows "update_card now did cid rating s =
    (case review_card now rating c of
       Inl e \<Rightarrow> Inl e
     | Inr c' \<Rightarrow>
         Inr (c', save_decks ((load_decks s)\<lparr>stats := update_stats now (stats (load_decks s))\<rparr>)
                   (save_deck did (d\<lparr>d_cards := (d_cards d)[k := c']\<rparr>) s)))"
  using assms by (simp add: update_card_def Let_def split: sum.splits)

lemma update_card_Inr:
  assumes "update_card now did cid rating s = Inr (c', s')"
  obtains d k c where "load_deck did s = Some d" and "find_card cid (d_cards d) 0 = Some (k, c)"
    and "review_card now rating c = Inr c'"
    and "s' = save_decks ((load_decks s)\<lparr>stats := update_stats now (stats (load_decks s))\<rparr>)
                   (save_deck did (d\<lparr>d_cards := (d_cards d)[k := c']\<rparr>) s)"
  using assms
  by (auto simp add: update_card_def Let_def split: option.splits sum.splits prod.splits)

text \<open>After a review the next lookup finds the card just written.\<close>

lemma update_card_next:
  assumes "update_card now did cid rating s = Inr (c', s')"
  shows "\<exists>d' k. load_deck did s' = Some d' \<and> find_card cid (d_cards d') 0 = Some (k, c')"
proof -
  from assms obtain d k c where d: "load_deck did s = Some d"
    and f: "find_card cid (d_cards d) 0 = Some (k, c)"
    and r: "review_card now rating c = Inr c'"
    and s': "s' = save_decks ((load_decks s)\<lparr>stats := update_stats now (stats (load_decks s))\<rparr>)
                   (save_deck did (d\<lparr>d_cards := (d_cards d)[k := c']\<rparr>) s)"
    by (rule update_card_Inr)
  have "c_id c' = cid" using review_card_id [OF r] find_card_Some [OF f] by simp
  from find_card_update [OF f this]
  have "find_card cid ((d_cards d)[k := c']) 0 = Some (k, c')" by simp
  then show ?thesis by (simp add: s')
qed

lemma review_card_fields:
  assumes "review_card now rating c = Inr c'"
  obtains i e r due where "sm2 (get_interval c) (get_ease c) (get_reps c) rating = Inr (i, e, r)"
    and "add_days now i = Inr due"
    and "c' = c\<lparr>c_interval := Some i, c_ease := Some (round2 e), c_reps := Some r,
                 c_due := Some due, c_lastReview := Some now, c_lastRating := Some rating\<rparr>"
  using assms by (auto simp add: review_card_def split: sum.splits prod.splits)

lemma review_card_ok:
  assumes "review_card now rating c = Inr c'" and "card_ok c" and "rating \<in> {0, 1, 2, 3}"
  shows "card_ok c'" and "lit_1_3 \<le> get_ease c'"
proof -
  from assms(1) obtain i e r due
    where sm: "sm2 (get_interval c) (get_ease c) (get_reps c) rating = Inr (i, e, r)"
    and c': "c' = c\<lparr>c_interval := Some i, c_ease := Some (round2 e), c_reps := Some r,
                 c_due := Some due, c_lastReview := Some now, c_lastRating := Some rating\<rparr>"
    by (rule review_card_fields)
  from assms(2) have ok: "13 / 10 \<le> get_ease c" "1 \<le> get_interval c"
    by (simp_all add: card_ok_def)
  have "13 / 10 \<le> e" using sm ok(1) by (rule sm2_ease_floor)
  then have l: "lit_1_3 \<le> round2 e" by (rule round2_ge)
  then have "13 / 10 \<le> round2 e" using lit_1_3_ge by linarith
  moreover have "1 \<le> i" using sm ok(2,1) assms(3) by (rule sm2_interval_ge_1)
  ultimately show "card_ok c'" by (simp add: card_ok_def c' get_ease_def get_interval_def)
  show "lit_1_3 \<le> get_ease c'" using l by (simp add: c' get_ease_def)
qed

lemma review_all_Cons:
  assumes "review_all did cid ((now, rating) # rs) s = Inr (cs, s')"
  obtains c1 s1 cs1 where "update_card now did cid rating s = Inr (c1, s1)"
    and "review_all did cid rs s1 = Inr (cs1, s')" and "cs = c1 # cs1"
proof (cases "update_card now did cid rating s")
  case (Inl e)
  with assms show ?thesis by simp
next
  case (Inr p)
  obtain c1 s1 where p: "p = (c1, s1)" by (cases p)
  show ?thesis
  proof (cases "review_all did cid rs s1")
    case (Inl e)
    with assms Inr p show ?thesis by simp
  next
    case r: (Inr q)
    obtain cs1 s2 where q: "q = (cs1, s2)" by (cases q)
    from assms Inr p r q have "cs = c1 # cs1" "s' = s2" by simp_all
    with that Inr p r q show ?thesis by simp
  qed
qed

lemma review_all_ok:
  assumes "review_all did cid rs s = Inr (cs, s')"
    and "\<forall>x \<in> set rs. snd x \<in> {0, 1, 2, 3}"
    and "\<And>d k c. load_deck did s = Some d \<Longrightarrow> find_card cid (d_cards d) 0 = Some (k, c) \<Longrightarrow> card_ok c"
  shows "\<forall>c \<in> set cs. card_ok c"
  using assms
proof (induction rs arbitrary: s cs)
  case Nil
  then show ?case by simp
next
  case (Cons a rs)
  obtain now rating where a: "a = (now, rating)" by (cases a)
  from Cons.prems(1) [unfolded a] obtain c1 s1 cs1
    where u: "update_card now did cid rating s = Inr (c1, s1)"
    and rest: "review_all did cid rs s1 = Inr (cs1, s')" and cs: "cs = c1 # cs1"
    by (rule review_all_Cons)
  from u obtain d k c where d: "load_deck did s = Some d"
    and f: "find_card cid (d_cards d) 0 = Some (k, c)"
    and r: "review_card now rating c = Inr c1"
    by (rule update_card_Inr)
  have "rating \<in> {0, 1, 2, 3}" using Cons.prems(2) by (simp add: a)
  with r Cons.prems(3) [OF d f] have ok1: "card_ok c1" by (rule review_card_ok(1))
  from update_card_next [OF u] obtain d1 k1 where d1: "load_deck did s1 = Some d1"
    and f1: "find_card cid (d_cards d1) 0 = Some (k1, c1)" by blast
  have next1: "card_ok c'" if "load_deck did s1 = Some d'" "find_card cid (d_cards d') 0 = Some (k', c')"
    for d' k' c'
    using that d1 f1 ok1 by simp
  have v: "\<forall>x \<in> set rs. snd x \<in> {0, 1, 2, 3}" using Cons.prems(2) by simp
  have "\<forall>c \<in> set cs1. card_ok c"
    using rest v next1 by (rule Cons.IH)
  with ok1 show ?case by (simp add: cs)
qed

lemma init_cards_ok:
  "c \<in> set (init_cards now did i cards) \<Longrightarrow> card_ok c \<and> c_due c = None"
proof (induction cards arbitrary: i)
  case Nil
  then show ?case by simp
next
  case (Cons a cards)
  obtain f b where a: "a = (f, b)" by (cases a)
  from Cons.prems [unfolded a] Cons.IH show ?case
    by (auto simp add: card_ok_def get_ease_def get_interval_def lit_2_5_val)
qed

lemma sm2_fresh_good: "sm2 1 (5 / 2) 0 2 = Inr (1, 5 / 2, 1)"
  by code_simp

lemma sm2_second_good: "sm2 1 (5 / 2) 1 2 = Inr (6, 5 / 2, 2)"
  by code_simp

lemma sm2_third_good: "sm2 6 (5 / 2) 2 2 = Inr (15, 5 / 2, 3)"
  by code_simp

lemmas ex_defs = ex_store_def ex_deck_def ex_card_def ex_stats_def day_def usec_per_day_def
  max_datetime_def load_deck_def load_decks_def save_deck_def save_decks_def
  get_interval_def get_ease_def get_reps_def get0_def date_of_def add_days_def

section \<open>The scheduling invariant\<close>

text \<open>
  C3. \<open>ease \<ge> 1.3\<close> and \<open>interval \<ge> 1\<close> is an invariant of card review: when the card
  that \<open>update_card\<close> locates satisfies it and the rating is one of 0, 1, 2, 3, the
  card returned (whose ease has been rounded to two decimals) satisfies it again, and
  its ease is not below the float \<open>1.3\<close> either (which lies just above 13/10). Hence
  every card returned by a sequence of reviews with valid ratings of a card of a newly
  created deck has \<open>ease \<ge> 1.3\<close> and \<open>interval \<ge> 1\<close>.
\<close>

theorem ease_interval_invariant:
  "(load_deck did s = Some d \<longrightarrow> find_card cid (d_cards d) 0 = Some (k, c) \<longrightarrow> card_ok c \<longrightarrow>
      rating \<in> {0, 1, 2, 3} \<longrightarrow> update_card now did cid rating s = Inr (c', s') \<longrightarrow>
      card_ok c' \<and> lit_1_3 \<le> get_ease c') \<and>
   ((\<forall>x \<in> set rs. snd x \<in> {0, 1, 2, 3}) \<longrightarrow>
      review_all did cid rs (snd (create_deck t0 did name source cards s0)) = Inr (cs, s'') \<longrightarrow>
      (\<forall>c \<in> set cs. 13 / 10 \<le> get_ease c \<and> 1 \<le> get_interval c))"
proof -
  have step: "card_ok c' \<and> lit_1_3 \<le> get_ease c'"
    if d: "load_deck did s = Some d" and f: "find_card cid (d_cards d) 0 = Some (k, c)"
      and ok: "card_ok c" and v: "rating \<in> {0, 1, 2, 3}"
      and u: "update_card now did cid rating s = Inr (c', s')"
  proof -
    from u obtain d1 k1 c1 where "load_deck did s = Some d1"
      "find_card cid (d_cards d1) 0 = Some (k1, c1)" "review_card now rating c1 = Inr c'"
      by (rule update_card_Inr)
    with d f have r: "review_card now rating c = Inr c'" by simp
    from review_card_ok(1) [OF r ok v] review_card_ok(2) [OF r ok v] show ?thesis ..
  qed
  have fresh: "card_ok c"
    if "load_deck did (snd (create_deck t0 did name source cards s0)) = Some d"
      and "find_card cid (d_cards d) 0 = Some (k, c)" for d k c
  proof -
    from that(1) have "d_cards d = init_cards t0 did 0 cards"
      by (auto simp add: create_deck_def Let_def)
    with find_card_Some [OF that(2)] have "c \<in> set (init_cards t0 did 0 cards)"
      by (metis nth_mem minus_nat.diff_0)
    then show ?thesis by (rule init_cards_ok [THEN conjunct1])
  qed
  have seq: "\<forall>c \<in> set cs. 13 / 10 \<le> get_ease c \<and> 1 \<le> get_interval c"
    if v: "\<forall>x \<in> set rs. snd x \<in> {0, 1, 2, 3}"
      and r: "review_all did cid rs (snd (create_deck t0 did name source cards s0)) = Inr (cs, s'')"
    using review_all_ok [OF r v fresh] by (simp add: card_ok_def)
  from step seq show ?thesis by blast
qed

theorem ease_interval_invariant_witness:
  "load_deck ''d'' (ex_store (ex_card (Some 1) (Some (5 / 2)) (Some 0)) (ex_stats 0 None))
     = Some (ex_deck ''d'' (ex_card (Some 1) (Some (5 / 2)) (Some 0))) \<and>
   find_card ''d-0'' (d_cards (ex_deck ''d'' (ex_card (Some 1) (Some (5 / 2)) (Some 0)))) 0
     = Some (0, ex_card (Some 1) (Some (5 / 2)) (Some 0)) \<and>
   card_ok (ex_card (Some 1) (Some (5 / 2)) (Some 0)) \<and>
   (2::int) \<in> {0, 1, 2, 3} \<and>
   \<not> isl (update_card (day 738885) ''d'' ''d-0'' 2
            (ex_store (ex_card (Some 1) (Some (5 / 2)) (Some 0)) (ex_stats 0 None))) \<and>
   card_ok (fst (projr (update_card (day 738885) ''d'' ''d-0'' 2
            (ex_store (ex_card (Some 1) (Some (5 / 2)) (Some 0)) (ex_stats 0 None)))))"
  using ease_interval_invariant [where did = "''d''" and cid = "''d-0''" and rating = 2
      and now = "day 738885" and k = 0
      and s = "ex_store (ex_card (Some 1) (Some (5 / 2)) (Some 0)) (ex_stats 0 None)"
      and d = "ex_deck ''d'' (ex_card (Some 1) (Some (5 / 2)) (Some 0))"
      and c = "ex_card (Some 1) (Some (5 / 2)) (Some 0)"
      and c' = "fst (projr (update_card (day 738885) ''d'' ''d-0'' 2
            (ex_store (ex_card (Some 1) (Some (5 / 2)) (Some 0)) (ex_stats 0 None))))"
      and s' = "snd (projr (update_card (day 738885) ''d'' ''d-0'' 2
            (ex_store (ex_card (Some 1) (Some (5 / 2)) (Some 0)) (ex_stats 0 None))))"
      and rs = "[]" and cs = "[]"]
  by (simp add: ex_defs card_ok_def update_card_def review_card_def sm2_fresh_good round2_2_5
      update_stats_def Let_def)

text \<open>
  C6. For a card with \<open>interval \<ge> 1\<close>, \<open>ease \<ge> 1.3\<close> and at least two repetitions, a
  review rated Good (2) or Easy (3) returns a card whose interval is not smaller than
  the interval before the review.
\<close>

theorem interval_monotone_on_success:
  assumes "load_deck did s = Some d" and "find_card cid (d_cards d) 0 = Some (k, c)"
    and "1 \<le> get_interval c" and "13 / 10 \<le> get_ease c" and "2 \<le> get_reps c"
    and "rating = 2 \<or> rating = 3"
    and "update_card now did cid rating s = Inr (c', s')"
  shows "c_interval c' = Some (get_interval c') \<and> get_interval c \<le> get_interval c'"
proof -
  from assms(7) obtain d1 k1 c1 where "load_deck did s = Some d1"
    "find_card cid (d_cards d1) 0 = Some (k1, c1)" "review_card now rating c1 = Inr c'"
    by (rule update_card_Inr)
  with assms(1,2) have "review_card now rating c = Inr c'" by simp
  then obtain i e r due
    where sm: "sm2 (get_interval c) (get_ease c) (get_reps c) rating = Inr (i, e, r)"
    and c': "c' = c\<lparr>c_interval := Some i, c_ease := Some (round2 e), c_reps := Some r,
                 c_due := Some due, c_lastReview := Some now, c_lastRating := Some rating\<rparr>"
    by (rule review_card_fields)
  have "rating = 2 \<and> get_reps c \<noteq> 0 \<and> get_reps c \<noteq> 1 \<or> rating = 3 \<and> get_reps c \<noteq> 0"
    using assms(5,6) by auto
  with sm assms(3,4) have "get_interval c \<le> i" by (rule sm2_grow)
  then show ?thesis by (simp add: c' get_interval_def)
qed

theorem interval_monotone_on_success_witness:
  "load_deck ''d'' (ex_store (ex_card (Some 6) (Some (5 / 2)) (Some 2)) (ex_stats 2 (Some 738885)))
     = Some (ex_deck ''d'' (ex_card (Some 6) (Some (5 / 2)) (Some 2))) \<and>
   find_card ''d-0'' (d_cards (ex_deck ''d'' (ex_card (Some 6) (Some (5 / 2)) (Some 2)))) 0
     = Some (0, ex_card (Some 6) (Some (5 / 2)) (Some 2)) \<and>
   1 \<le> get_interval (ex_card (Some 6) (Some (5 / 2)) (Some 2)) \<and>
   13 / 10 \<le> get_ease (ex_card (Some 6) (Some (5 / 2)) (Some 2)) \<and>
   2 \<le> get_reps (ex_card (Some 6) (Some (5 / 2)) (Some 2)) \<and>
   \<not> isl (update_card (day 738886) ''d'' ''d-0'' 2
            (ex_store (ex_card (Some 6) (Some (5 / 2)) (Some 2)) (ex_stats 2 (Some 738885)))) \<and>
   c_interval (fst (projr (update_card (day 738886) ''d'' ''d-0'' 2
            (ex_store (ex_card (Some 6) (Some (5 / 2)) (Some 2)) (ex_stats 2 (Some 738885))))))
     = Some 15 \<and>
   get_interval (ex_card (Some 6) (Some (5 / 2)) (Some 2))
     \<le> get_interval (fst (projr (update_card (day 738886) ''d'' ''d-0'' 2
            (ex_store (ex_card (Some 6) (Some (5 / 2)) (Some 2)) (ex_stats 2 (Some 738885))))))"
  using interval_monotone_on_success [where did = "''d''" and cid = "''d-0''" and rating = 2
      and now = "day 738886" and k = 0
      and s = "ex_store (ex_card (Some 6) (Some (5 / 2)) (Some 2)) (ex_stats 2 (Some 738885))"
      and d = "ex_deck ''d'' (ex_card (Some 6) (Some (5 / 2)) (Some 2))"
      and c = "ex_card (Some 6) (Some (5 / 2)) (Some 2)"
      and c' = "fst (projr (update_card (day 738886) ''d'' ''d-0'' 2
            (ex_store (ex_card (Some 6) (Some (5 / 2)) (Some 2)) (ex_stats 2 (Some 738885)))))"
      and s' = "snd (projr (update_card (day 738886) ''d'' ''d-0'' 2
            (ex_store (ex_card (Some 6) (Some (5 / 2)) (Some 2)) (ex_stats 2 (Some 738885)))))"]
  by (simp add: ex_defs update_card_def review_card_def sm2_third_good round2_2_5
      update_stats_def Let_def)

section \<open>The SM-2 table\<close>

lemma trunc_floor: "0 \<le> x \<Longrightarrow> trunc x = \<lfloor>x\<rfloor>"
  by (simp add: trunc_def)

lemma fl_nonneg: "0 \<le> x \<Longrightarrow> 0 \<le> fl x"
  by (simp add: fl_def flp_nonneg)

lemma int_mul_float_Finite:
  "int_mul_float i e = Inr (Finite y) \<Longrightarrow> y = fl (fl (of_int i) * e)"
  by (auto simp add: int_mul_float_def float_of_int_def float_mul_def Let_def split: if_splits)

lemma pyfloat_mul_Finite:
  "pyfloat_mul p b = Finite z \<Longrightarrow> \<exists>y. p = Finite y \<and> z = fl (y * b)"
  by (cases p) (auto simp add: pyfloat_mul_def float_mul_def Let_def split: if_splits)

text \<open>Whenever lines 189 to 213 finish, the result is the table's, read with truncation.\<close>

lemma sm2_eq_spec:
  assumes "sm2 i e r rating = Inr res" and "rating \<in> {0, 1, 2, 3}"
  shows "res = sm2_spec trunc i e r rating"
proof -
  consider "rating = 0" | "rating = 1" | "rating = 2" | "rating = 3" using assms(2) by auto
  then show ?thesis
  proof cases
    case 1
    with assms(1) show ?thesis by (auto simp add: sm2_def sm2_spec_def float_sub_def)
  next
    case 2
    with assms(1) obtain p n where p: "int_mul_float i lit_1_2 = Inr p" "py_int p = Inr n"
      and res: "res = (max 1 n, max lit_1_3 (float_sub e lit_0_15), r + 1)"
      by (auto simp add: sm2_def Let_def split: sum.splits)
    from p(2) obtain y where y: "p = Finite y" "n = trunc y" by (auto simp add: py_int_Inr)
    with p(1) have "y = fl (fl (of_int i) * lit_1_2)" by (simp add: int_mul_float_Finite)
    with 2 res y show ?thesis by (simp add: sm2_spec_def float_sub_def)
  next
    case 3
    show ?thesis
    proof (cases "r + 1 = 1 \<or> r + 1 = 2")
      case True
      with 3 assms(1) show ?thesis by (auto simp add: sm2_def sm2_spec_def Let_def)
    next
      case False
      with 3 assms(1) obtain p n where p: "int_mul_float i e = Inr p" "py_int p = Inr n"
        and res: "res = (n, e, r + 1)"
        by (auto simp add: sm2_def Let_def split: sum.splits)
      from p(2) obtain y where y: "p = Finite y" "n = trunc y" by (auto simp add: py_int_Inr)
      with p(1) have "y = fl (fl (of_int i) * e)" by (simp add: int_mul_float_Finite)
      with 3 False res y show ?thesis by (simp add: sm2_spec_def)
    qed
  next
    case 4
    show ?thesis
    proof (cases "r + 1 = 1")
      case True
      with 4 assms(1) show ?thesis by (auto simp add: sm2_def sm2_spec_def Let_def float_add_def)
    next
      case False
      with 4 assms(1) obtain p n where p: "int_mul_float i e = Inr p"
        "py_int (pyfloat_mul p lit_1_3) = Inr n"
        and res: "res = (n, float_add e lit_0_15, r + 1)"
        by (auto simp add: sm2_def Let_def split: sum.splits)
      from p(2) obtain z where z: "pyfloat_mul p lit_1_3 = Finite z" "n = trunc z"
        by (auto simp add: py_int_Inr)
      from pyfloat_mul_Finite [OF z(1)] obtain y where y: "p = Finite y" "z = fl (y * lit_1_3)"
        by blast
      with p(1) have "y = fl (fl (of_int i) * e)" by (simp add: int_mul_float_Finite)
      with 4 False res y z show ?thesis by (simp add: sm2_spec_def float_add_def)
    qed
  qed
qed

text \<open>For a non-negative ease the products are non-negative, where truncation is floor.\<close>

lemma sm2_spec_floor:
  assumes "1 \<le> i" and "0 \<le> e"
  shows "sm2_spec trunc i e r rating = sm2_spec floor i e r rating"
proof -
  have a: "0 \<le> fl (of_int i)" using assms(1) by (intro fl_nonneg) simp
  have l: "0 \<le> lit_1_2" "0 \<le> lit_1_3" by (simp_all add: lit_1_2_val lit_1_3_val)
  have "0 \<le> fl (fl (of_int i) * lit_1_2)"
    by (rule fl_nonneg) (rule mult_nonneg_nonneg [OF a l(1)])
  moreover have b: "0 \<le> fl (fl (of_int i) * e)"
    by (rule fl_nonneg) (rule mult_nonneg_nonneg [OF a assms(2)])
  moreover have "0 \<le> fl (fl (fl (of_int i) * e) * lit_1_3)"
    by (rule fl_nonneg) (rule mult_nonneg_nonneg [OF b l(2)])
  ultimately show ?thesis by (simp add: sm2_spec_def trunc_floor)
qed

lemma sm2_other_rating:
  "rating \<notin> {0, 1, 2, 3} \<Longrightarrow> sm2 i e r rating = Inr (i, e, r + 1)"
  by (simp add: sm2_def)

lemma fl_powers: "fl 2147483648 = 2147483648" "fl 549755813888 = 549755813888"
  "fl 1099511627776 = 1099511627776"
  by code_simp+

lemma trunc_abs_le: "\<bar>x\<bar> \<le> of_int n \<Longrightarrow> \<bar>trunc x\<bar> \<le> n"
proof -
  assume a: "\<bar>x\<bar> \<le> of_int n"
  show ?thesis
  proof (cases "x < 0")
    case True
    then have "- x \<le> of_int n" using a by linarith
    then have "\<lfloor>- x\<rfloor> \<le> n" by (simp add: floor_le_iff)
    moreover have "0 \<le> \<lfloor>- x\<rfloor>" using True by simp
    ultimately show ?thesis using True by (simp add: trunc_def)
  next
    case False
    then have "x \<le> of_int n" using a by linarith
    then have "\<lfloor>x\<rfloor> \<le> n" by (simp add: floor_le_iff)
    moreover have "0 \<le> \<lfloor>x\<rfloor>" using False by simp
    ultimately show ?thesis using False by (simp add: trunc_def)
  qed
qed

text \<open>
  Lines 189 to 213 raise nothing on intervals and eases of moderate size, and the new
  interval stays below \<open>2 ^ 40\<close>.
\<close>

lemma sm2_returns:
  assumes "\<bar>i\<bar> \<le> 2147483648" and "\<bar>e\<bar> \<le> 256"
  shows "\<not> isl (sm2 i e r rating) \<and>
    \<bar>fst (projr (sm2 i e r rating))\<bar> \<le> 1099511627776"
proof -
  define a where "a = fl (of_int i)"
  have "\<bar>of_int i :: rat\<bar> \<le> of_int 2147483648"
    using assms(1) unfolding of_int_abs [symmetric] by (simp only: of_int_le_iff)
  then have a: "\<bar>a\<bar> \<le> 2147483648"
    unfolding a_def using fl_abs_le [of "of_int i" 2147483648] by (simp add: fl_powers)
  then have fi: "float_of_int i = Inr a"
    by (simp add: float_of_int_def a_def [symmetric] max_double_def Let_def)
  have prod: "\<bar>a * x\<bar> \<le> 549755813888" if "\<bar>x\<bar> \<le> 256" for x
  proof -
    have "\<bar>a\<bar> * \<bar>x\<bar> \<le> 2147483648 * 256" using a that by (intro mult_mono) simp_all
    then show ?thesis by (simp add: abs_mult)
  qed
  have fm: "float_mul a x = Finite (fl (a * x)) \<and> \<bar>fl (a * x)\<bar> \<le> 549755813888"
    if "\<bar>x\<bar> \<le> 256" for x
  proof -
    have "\<bar>fl (a * x)\<bar> \<le> 549755813888"
      using fl_abs_le [OF prod [OF that]] by (simp add: fl_powers)
    then show ?thesis by (simp add: float_mul_def Let_def max_double_def)
  qed
  have tr: "\<bar>trunc y\<bar> \<le> 1099511627776" if "\<bar>y\<bar> \<le> 1099511627776" for y
  proof -
    from that have "\<bar>y\<bar> \<le> of_int 1099511627776" by simp
    then show ?thesis by (rule trunc_abs_le)
  qed
  have l: "\<bar>lit_1_2\<bar> \<le> 256" by (simp add: lit_1_2_val)
  consider "rating = 0" | "rating = 1" | "rating = 2" | "rating = 3" | "rating \<notin> {0, 1, 2, 3}"
    by auto
  then show ?thesis
  proof cases
    case 1
    then show ?thesis by (simp add: sm2_def)
  next
    case 2
    from fm [OF l] have y: "float_mul a lit_1_2 = Finite (fl (a * lit_1_2))"
      "\<bar>fl (a * lit_1_2)\<bar> \<le> 1099511627776" by simp_all
    from tr [OF y(2)] have "\<bar>max 1 (trunc (fl (a * lit_1_2)))\<bar> \<le> 1099511627776"
      by linarith
    with 2 y(1) fi show ?thesis
      by (simp add: sm2_def int_mul_float_def py_int_def Let_def)
  next
    case 3
    from fm [OF assms(2)] have y: "float_mul a e = Finite (fl (a * e))"
      "\<bar>fl (a * e)\<bar> \<le> 1099511627776" by simp_all
    from 3 y(1) fi tr [OF y(2)] show ?thesis
      by (simp add: sm2_def int_mul_float_def py_int_def Let_def)
  next
    case 4
    from fm [OF assms(2)] have y: "float_mul a e = Finite (fl (a * e))"
      "\<bar>fl (a * e)\<bar> \<le> 549755813888" by simp_all
    have "\<bar>fl (a * e)\<bar> * \<bar>lit_1_3\<bar> \<le> 549755813888 * 2"
      using y(2) by (intro mult_mono) (simp_all add: lit_1_3_val)
    then have "\<bar>fl (a * e) * lit_1_3\<bar> \<le> 1099511627776" by (simp add: abs_mult)
    from fl_abs_le [OF this] have z: "\<bar>fl (fl (a * e) * lit_1_3)\<bar> \<le> 1099511627776"
      by (simp add: fl_powers)
    then have "pyfloat_mul (Finite (fl (a * e))) lit_1_3 = Finite (fl (fl (a * e) * lit_1_3))"
      by (simp add: pyfloat_mul_def float_mul_def Let_def max_double_def)
    with 4 y(1) fi tr [OF z] show ?thesis
      by (simp add: sm2_def int_mul_float_def py_int_def Let_def)
  next
    case 5
    then show ?thesis using assms(1) by (simp add: sm2_other_rating)
  qed
qed

lemma good_step:
  assumes "load_deck did s = Some d" and "find_card cid (d_cards d) 0 = Some (k, c)"
    and "sm2 (get_interval c) (get_ease c) (get_reps c) rating = Inr (i, e, r)"
    and "0 \<le> i" and "i \<le> 15" and "0 \<le> t" and "t + 15 * usec_per_day \<le> max_datetime"
  obtains c1 s1 d1 k1 where "update_card t did cid rating s = Inr (c1, s1)"
    and "c_interval c1 = Some i" and "c_ease c1 = Some (round2 e)" and "c_reps c1 = Some r"
    and "load_deck did s1 = Some d1" and "find_card cid (d_cards d1) 0 = Some (k1, c1)"
proof -
  have "add_days t i = Inr (t + i * usec_per_day)"
    using assms(4-7) by (auto simp add: add_days_def Let_def usec_per_day_def max_datetime_def)
  then have r: "review_card t rating c =
    Inr (c\<lparr>c_interval := Some i, c_ease := Some (round2 e), c_reps := Some r,
          c_due := Some (t + i * usec_per_day), c_lastReview := Some t, c_lastRating := Some rating\<rparr>)"
    by (simp add: review_card_def assms(3))
  define c1 where "c1 = c\<lparr>c_interval := Some i, c_ease := Some (round2 e), c_reps := Some r,
          c_due := Some (t + i * usec_per_day), c_lastReview := Some t, c_lastRating := Some rating\<rparr>"
  obtain s1 where u: "update_card t did cid rating s = Inr (c1, s1)"
    using update_card_found [OF assms(1,2), of t rating] r by (simp add: c1_def)
  from update_card_next [OF u] obtain d1 k1 where "load_deck did s1 = Some d1"
    "find_card cid (d_cards d1) 0 = Some (k1, c1)" by blast
  with u that [of c1 s1 d1 k1] show ?thesis by (simp add: c1_def)
qed

lemma sm2_eq_spec_floor:
  assumes "sm2 i e r rating = Inr res" and "rating \<in> {0, 1, 2, 3}" and "1 \<le> i" and "0 \<le> e"
  shows "res = sm2_spec floor i e r rating"
  using sm2_eq_spec [OF assms(1,2)] sm2_spec_floor [OF assms(3,4)] by simp

lemma sm2_computes_spec:
  assumes "1 \<le> i" and "i \<le> 2147483648" and "0 \<le> e" and "e \<le> 256"
    and "rating \<in> {0, 1, 2, 3}"
  shows "sm2 i e r rating = Inr (sm2_spec floor i e r rating)"
proof -
  have "\<bar>i\<bar> \<le> 2147483648" "\<bar>e\<bar> \<le> 256" using assms(1-4) by simp_all
  from sm2_returns [OF this, of r rating] obtain res where res: "sm2 i e r rating = Inr res"
    by (cases "sm2 i e r rating") simp_all
  with sm2_eq_spec_floor [OF res assms(5,1,3)] show ?thesis by simp
qed

text \<open>
  The hypothesis \<open>ease \<ge> 0\<close> of the table below holds of every card the program writes
  (\<open>create_deck\<close> writes 2.5 and every review keeps \<open>ease \<ge> 1.3\<close>). It cannot be
  dropped: Python's \<open>int\<close> truncates toward zero, so a hand-written card with
  \<open>interval = 1\<close>, \<open>ease = -2.5\<close>, \<open>reps = 2\<close> rated Good gets \<open>int(-2.5) = -2\<close>, where
  \<open>floor\<close> gives -3.
\<close>

lemma negative_ease_truncates:
  "sm2 1 (- (5 / 2)) 2 2 = Inr (- 2, - (5 / 2), 3) \<and> fst (sm2_spec floor 1 (- (5 / 2)) 2 2) = - 3"
  by code_simp

text \<open>
  C2. For every card with \<open>interval \<ge> 1\<close>, \<open>reps \<ge> 0\<close> and \<open>ease \<ge> 0\<close> and every
  rating among 0, 1, 2, 3, lines 189 to 213 compute the \<open>(interval, ease, reps)\<close> of the
  SM-2 table \<open>sm2_spec floor\<close>: whenever they finish, and they finish for every interval
  up to \<open>2 ^ 31\<close> and ease up to 256. The card \<open>update_card\<close> returns holds that interval
  and those repetitions, and that ease rounded to two decimals. A card starting at
  \<open>interval = 1\<close>, \<open>ease = 2.5\<close>, \<open>reps = 0\<close> and rated Good three times in a row gets
  the intervals 1, 6, 15.
\<close>

theorem sm2_table:
  "(1 \<le> i \<longrightarrow> 0 \<le> r \<longrightarrow> 0 \<le> e \<longrightarrow> rating \<in> {0, 1, 2, 3} \<longrightarrow>
      sm2 i e r rating = Inr res \<longrightarrow> res = sm2_spec floor i e r rating) \<and>
   (1 \<le> i \<longrightarrow> i \<le> 2147483648 \<longrightarrow> 0 \<le> r \<longrightarrow> 0 \<le> e \<longrightarrow> e \<le> 256 \<longrightarrow>
      rating \<in> {0, 1, 2, 3} \<longrightarrow>
      sm2 i e r rating = Inr (sm2_spec floor i e r rating)) \<and>
   (load_deck did s = Some d \<longrightarrow> find_card cid (d_cards d) 0 = Some (k, c) \<longrightarrow>
      update_card now did cid rating s = Inr (c', s') \<longrightarrow> rating \<in> {0, 1, 2, 3} \<longrightarrow>
      1 \<le> get_interval c \<longrightarrow> 0 \<le> get_reps c \<longrightarrow> 0 \<le> get_ease c \<longrightarrow>
      (case sm2_spec floor (get_interval c) (get_ease c) (get_reps c) rating of
         (i', e', r') \<Rightarrow>
           c_interval c' = Some i' \<and> c_ease c' = Some (round2 e') \<and> c_reps c' = Some r')) \<and>
   (load_deck did s = Some d \<longrightarrow> find_card cid (d_cards d) 0 = Some (k, c) \<longrightarrow>
      get_interval c = 1 \<longrightarrow> get_ease c = 5 / 2 \<longrightarrow> get_reps c = 0 \<longrightarrow>
      0 \<le> t1 \<longrightarrow> t1 + 15 * usec_per_day \<le> max_datetime \<longrightarrow>
      0 \<le> t2 \<longrightarrow> t2 + 15 * usec_per_day \<le> max_datetime \<longrightarrow>
      0 \<le> t3 \<longrightarrow> t3 + 15 * usec_per_day \<le> max_datetime \<longrightarrow>
      (case review_all did cid [(t1, 2), (t2, 2), (t3, 2)] s of
         Inl err \<Rightarrow> False
       | Inr (cs, s3) \<Rightarrow> map c_interval cs = [Some 1, Some 6, Some 15]))"
proof (intro conjI impI)
  assume "sm2 i e r rating = Inr res" and "rating \<in> {0, 1, 2, 3}" and "1 \<le> i" and "0 \<le> e"
  then show "res = sm2_spec floor i e r rating" by (rule sm2_eq_spec_floor)
next
  assume "1 \<le> i" and "i \<le> 2147483648" and "0 \<le> e" and "e \<le> 256"
    and "rating \<in> {0, 1, 2, 3}"
  then show "sm2 i e r rating = Inr (sm2_spec floor i e r rating)" by (rule sm2_computes_spec)
next
  assume d: "load_deck did s = Some d" and f: "find_card cid (d_cards d) 0 = Some (k, c)"
    and u: "update_card now did cid rating s = Inr (c', s')" and v: "rating \<in> {0, 1, 2, 3}"
    and b: "1 \<le> get_interval c" "0 \<le> get_ease c"
  from u obtain d1 k1 c1 where "load_deck did s = Some d1"
    "find_card cid (d_cards d1) 0 = Some (k1, c1)" "review_card now rating c1 = Inr c'"
    by (rule update_card_Inr)
  with d f have "review_card now rating c = Inr c'" by simp
  then obtain i e r due
    where sm: "sm2 (get_interval c) (get_ease c) (get_reps c) rating = Inr (i, e, r)"
    and c': "c' = c\<lparr>c_interval := Some i, c_ease := Some (round2 e), c_reps := Some r,
                 c_due := Some due, c_lastReview := Some now, c_lastRating := Some rating\<rparr>"
    by (rule review_card_fields)
  from sm2_eq_spec_floor [OF sm v b, symmetric]
  show "case sm2_spec floor (get_interval c) (get_ease c) (get_reps c) rating of
         (i', e', r') \<Rightarrow>
           c_interval c' = Some i' \<and> c_ease c' = Some (round2 e') \<and> c_reps c' = Some r'"
    by (simp add: c' split: prod.splits)
next
  assume d: "load_deck did s = Some d" and f: "find_card cid (d_cards d) 0 = Some (k, c)"
    and c: "get_interval c = 1" "get_ease c = 5 / 2" "get_reps c = 0"
    and t1: "0 \<le> t1" "t1 + 15 * usec_per_day \<le> max_datetime"
    and t2: "0 \<le> t2" "t2 + 15 * usec_per_day \<le> max_datetime"
    and t3: "0 \<le> t3" "t3 + 15 * usec_per_day \<le> max_datetime"
  have sm1: "sm2 (get_interval c) (get_ease c) (get_reps c) 2 = Inr (1, 5 / 2, 1)"
    by (simp add: c sm2_fresh_good)
  from d f sm1 _ _ t1 obtain c1 s1 d1 k1 where u1: "update_card t1 did cid 2 s = Inr (c1, s1)"
    and c1: "c_interval c1 = Some 1" "c_ease c1 = Some (round2 (5 / 2))" "c_reps c1 = Some 1"
    and d1: "load_deck did s1 = Some d1" and f1: "find_card cid (d_cards d1) 0 = Some (k1, c1)"
    by (rule good_step) simp_all
  have sm2: "sm2 (get_interval c1) (get_ease c1) (get_reps c1) 2 = Inr (6, 5 / 2, 2)"
    by (simp add: c1 get_interval_def get_ease_def get_reps_def round2_2_5 sm2_second_good)
  from d1 f1 sm2 _ _ t2 obtain c2 s2 d2 k2 where u2: "update_card t2 did cid 2 s1 = Inr (c2, s2)"
    and c2: "c_interval c2 = Some 6" "c_ease c2 = Some (round2 (5 / 2))" "c_reps c2 = Some 2"
    and d2: "load_deck did s2 = Some d2" and f2: "find_card cid (d_cards d2) 0 = Some (k2, c2)"
    by (rule good_step) simp_all
  have sm3: "sm2 (get_interval c2) (get_ease c2) (get_reps c2) 2 = Inr (15, 5 / 2, 3)"
    by (simp add: c2 get_interval_def get_ease_def get_reps_def round2_2_5 sm2_third_good)
  from d2 f2 sm3 _ _ t3 obtain c3 s3 d3 k3 where u3: "update_card t3 did cid 2 s2 = Inr (c3, s3)"
    and c3: "c_interval c3 = Some 15"
    and d3: "load_deck did s3 = Some d3" and f3: "find_card cid (d_cards d3) 0 = Some (k3, c3)"
    by (rule good_step) simp_all
  show "case review_all did cid [(t1, 2), (t2, 2), (t3, 2)] s of
         Inl err \<Rightarrow> False
       | Inr (cs, s3) \<Rightarrow> map c_interval cs = [Some 1, Some 6, Some 15]"
    by (simp add: u1 u2 u3 c1 c2 c3)
qed

theorem sm2_table_witness:
  "(1::int) \<le> 6 \<and> (6::int) \<le> 2147483648 \<and> (0::int) \<le> 2 \<and> (0::rat) \<le> 5 / 2 \<and>
   (5 / 2 :: rat) \<le> 256 \<and> (2::int) \<in> {0, 1, 2, 3} \<and>
   sm2 6 (5 / 2) 2 2 = Inr (15, 5 / 2, 3) \<and>
   sm2_spec floor 6 (5 / 2) 2 2 = (15, 5 / 2, 3) \<and>
   sm2 6 (5 / 2) 2 2 = Inr (sm2_spec floor 6 (5 / 2) 2 2) \<and>
   load_deck ''d'' (ex_store (ex_card (Some 1) (Some (5 / 2)) (Some 0)) (ex_stats 0 None))
     = Some (ex_deck ''d'' (ex_card (Some 1) (Some (5 / 2)) (Some 0))) \<and>
   find_card ''d-0'' (d_cards (ex_deck ''d'' (ex_card (Some 1) (Some (5 / 2)) (Some 0)))) 0
     = Some (0, ex_card (Some 1) (Some (5 / 2)) (Some 0)) \<and>
   \<not> isl (update_card (day 738885) ''d'' ''d-0'' 2
            (ex_store (ex_card (Some 1) (Some (5 / 2)) (Some 0)) (ex_stats 0 None))) \<and>
   1 \<le> get_interval (ex_card (Some 1) (Some (5 / 2)) (Some 0)) \<and>
   0 \<le> get_reps (ex_card (Some 1) (Some (5 / 2)) (Some 0)) \<and>
   0 \<le> get_ease (ex_card (Some 1) (Some (5 / 2)) (Some 0)) \<and>
   get_interval (ex_card (Some 1) (Some (5 / 2)) (Some 0)) = 1 \<and>
   get_ease (ex_card (Some 1) (Some (5 / 2)) (Some 0)) = 5 / 2 \<and>
   get_reps (ex_card (Some 1) (Some (5 / 2)) (Some 0)) = 0 \<and>
   0 \<le> day 738885 \<and> day 738885 + 15 * usec_per_day \<le> max_datetime \<and>
   0 \<le> day 738886 \<and> day 738886 + 15 * usec_per_day \<le> max_datetime \<and>
   0 \<le> day 738892 \<and> day 738892 + 15 * usec_per_day \<le> max_datetime \<and>
   (case sm2_spec floor (get_interval (ex_card (Some 1) (Some (5 / 2)) (Some 0)))
           (get_ease (ex_card (Some 1) (Some (5 / 2)) (Some 0)))
           (get_reps (ex_card (Some 1) (Some (5 / 2)) (Some 0))) 2 of
      (i', e', r') \<Rightarrow>
        c_interval (fst (projr (update_card (day 738885) ''d'' ''d-0'' 2
            (ex_store (ex_card (Some 1) (Some (5 / 2)) (Some 0)) (ex_stats 0 None))))) = Some i' \<and>
        c_ease (fst (projr (update_card (day 738885) ''d'' ''d-0'' 2
            (ex_store (ex_card (Some 1) (Some (5 / 2)) (Some 0)) (ex_stats 0 None)))))
          = Some (round2 e') \<and>
        c_reps (fst (projr (update_card (day 738885) ''d'' ''d-0'' 2
            (ex_store (ex_card (Some 1) (Some (5 / 2)) (Some 0)) (ex_stats 0 None))))) = Some r') \<and>
   (case review_all ''d'' ''d-0'' [(day 738885, 2), (day 738886, 2), (day 738892, 2)]
           (ex_store (ex_card (Some 1) (Some (5 / 2)) (Some 0)) (ex_stats 0 None)) of
      Inl err \<Rightarrow> False
    | Inr (cs, s3) \<Rightarrow> map c_interval cs = [Some 1, Some 6, Some 15])"
proof -
  let ?c = "ex_card (Some 1) (Some (5 / 2)) (Some 0)"
  let ?s = "ex_store ?c (ex_stats 0 None)"
  let ?u = "update_card (day 738885) ''d'' ''d-0'' 2 ?s"
  have n: "(1::int) \<le> 6" "(6::int) \<le> 2147483648" "(0::int) \<le> 2" "(0::rat) \<le> 5 / 2"
    "(5 / 2 :: rat) \<le> 256"
    and v: "(2::int) \<in> {0, 1, 2, 3}"
    by simp_all
  have d: "load_deck ''d'' ?s = Some (ex_deck ''d'' ?c)"
    and f: "find_card ''d-0'' (d_cards (ex_deck ''d'' ?c)) 0 = Some (0, ?c)"
    and b: "1 \<le> get_interval ?c" "0 \<le> get_reps ?c" "0 \<le> get_ease ?c"
    and c: "get_interval ?c = 1" "get_ease ?c = 5 / 2" "get_reps ?c = 0"
    and t: "0 \<le> day 738885" "day 738885 + 15 * usec_per_day \<le> max_datetime"
      "0 \<le> day 738886" "day 738886 + 15 * usec_per_day \<le> max_datetime"
      "0 \<le> day 738892" "day 738892 + 15 * usec_per_day \<le> max_datetime"
    by (simp_all add: ex_defs)
  have i: "\<not> isl ?u"
    by (simp add: ex_defs update_card_def review_card_def sm2_fresh_good round2_2_5
        update_stats_def Let_def)
  note u = i [THEN not_isl_Inr]
  note T = sm2_table [where did = "''d''" and cid = "''d-0''" and rating = 2
      and now = "day 738885" and k = 0 and s = ?s and d = "ex_deck ''d'' ?c" and c = ?c
      and c' = "fst (projr ?u)" and s' = "snd (projr ?u)"
      and ?t1.0 = "day 738885" and ?t2.0 = "day 738886" and ?t3.0 = "day 738892"
      and i = 6 and e = "5 / 2" and r = 2 and res = "(15, 5 / 2, 3)"]
  note Q = T [THEN conjunct1, rule_format, OF n(1) n(3) n(4) v sm2_third_good]
  note P = T [THEN conjunct2, THEN conjunct1, rule_format, OF n(1) n(2) n(3) n(4) n(5) v]
  note A = T [THEN conjunct2, THEN conjunct2, THEN conjunct1, rule_format, OF d f u v b]
  note C = T [THEN conjunct2, THEN conjunct2, THEN conjunct2, rule_format, OF d f c t]
  from n v sm2_third_good Q [symmetric] P d f i b c t A C show ?thesis by (intro conjI)
qed

section \<open>Ratings outside the table\<close>

text \<open>
  A rating outside 0..3 raises nothing: the review of a new card with rating 7 returns a
  card, writes the deck with \<open>reps = 1\<close> and \<open>lastRating = 7\<close>, and counts one more
  review in the statistics.
\<close>

theorem invalid_rating_counterexample:
  "(7::int) \<notin> {0, 1, 2, 3} \<and>
   \<not> isl (update_card (day 738885) ''d'' ''d-0'' 7
            (ex_store (ex_card (Some 1) (Some (5 / 2)) (Some 0)) (ex_stats 0 None))) \<and>
   c_reps (ex_card (Some 1) (Some (5 / 2)) (Some 0)) = Some 0 \<and>
   c_reps (fst (projr (update_card (day 738885) ''d'' ''d-0'' 7
            (ex_store (ex_card (Some 1) (Some (5 / 2)) (Some 0)) (ex_stats 0 None))))) = Some 1 \<and>
   c_lastRating (fst (projr (update_card (day 738885) ''d'' ''d-0'' 7
            (ex_store (ex_card (Some 1) (Some (5 / 2)) (Some 0)) (ex_stats 0 None))))) = Some 7 \<and>
   map c_reps (d_cards (the (load_deck ''d'' (snd (projr (update_card (day 738885) ''d'' ''d-0'' 7
            (ex_store (ex_card (Some 1) (Some (5 / 2)) (Some 0)) (ex_stats 0 None))))))))
     = [Some 1] \<and>
   totalReviews (stats (load_decks
            (ex_store (ex_card (Some 1) (Some (5 / 2)) (Some 0)) (ex_stats 0 None)))) = Some 0 \<and>
   totalReviews (stats (load_decks (snd (projr (update_card (day 738885) ''d'' ''d-0'' 7
            (ex_store (ex_card (Some 1) (Some (5 / 2)) (Some 0)) (ex_stats 0 None)))))))
     = Some 1"
  by (simp add: ex_defs update_card_def review_card_def sm2_other_rating round2_2_5
      update_stats_def Let_def)

text \<open>
  C1 (amended). For a rating outside 0, 1, 2, 3 \<open>update_card\<close> signals no rating error.
  When the deck and the card exist, either \<open>now\<close> plus the interval is not a date of the
  calendar (\<open>add_days\<close> fails), and then \<open>update_card\<close> raises that \<open>OverflowError\<close> and
  writes nothing; or it performs a review that keeps the interval, rounds the ease to two
  decimals, adds one to the repetitions, sets \<open>due\<close> to \<open>now\<close> plus the interval,
  \<open>lastReview\<close> to \<open>now\<close> and \<open>lastRating\<close> to the rating, writes the deck and updates
  the statistics as for any review.
\<close>

theorem invalid_rating_still_reviews:
  assumes "rating \<notin> {0, 1, 2, 3}"
    and "load_deck did s = Some d" and "find_card cid (d_cards d) 0 = Some (k, c)"
  shows "update_card now did cid rating s =
    (case add_days now (get_interval c) of
       Inl e \<Rightarrow> Inl e
     | Inr due \<Rightarrow>
         Inr (c\<lparr>c_interval := Some (get_interval c), c_ease := Some (round2 (get_ease c)),
                c_reps := Some (get_reps c + 1), c_due := Some due,
                c_lastReview := Some now, c_lastRating := Some rating\<rparr>,
              save_decks ((load_decks s)\<lparr>stats := update_stats now (stats (load_decks s))\<rparr>)
                (save_deck did
                   (d\<lparr>d_cards := (d_cards d)
                        [k := c\<lparr>c_interval := Some (get_interval c),
                                 c_ease := Some (round2 (get_ease c)),
                                 c_reps := Some (get_reps c + 1), c_due := Some due,
                                 c_lastReview := Some now, c_lastRating := Some rating\<rparr>]\<rparr>) s)))"
  unfolding update_card_found [OF assms(2,3)] review_card_def sm2_other_rating [OF assms(1)]
  by (simp split: sum.splits)

theorem invalid_rating_still_reviews_witness:
  "(7::int) \<notin> {0, 1, 2, 3} \<and>
   load_deck ''d'' (ex_store (ex_card (Some 1) (Some (5 / 2)) (Some 0)) (ex_stats 0 None))
     = Some (ex_deck ''d'' (ex_card (Some 1) (Some (5 / 2)) (Some 0))) \<and>
   find_card ''d-0'' (d_cards (ex_deck ''d'' (ex_card (Some 1) (Some (5 / 2)) (Some 0)))) 0
     = Some (0, ex_card (Some 1) (Some (5 / 2)) (Some 0)) \<and>
   add_days (day 738885) (get_interval (ex_card (Some 1) (Some (5 / 2)) (Some 0)))
     = Inr (day 738886) \<and>
   fst (projr (update_card (day 738885) ''d'' ''d-0'' 7
          (ex_store (ex_card (Some 1) (Some (5 / 2)) (Some 0)) (ex_stats 0 None))))
     = (ex_card (Some 1) (Some (5 / 2)) (Some 0))
         \<lparr>c_interval := Some 1, c_ease := Some (5 / 2), c_reps := Some 1,
          c_due := Some (day 738886), c_lastReview := Some (day 738885),
          c_lastRating := Some 7\<rparr>"
proof -
  let ?c = "ex_card (Some 1) (Some (5 / 2)) (Some 0)"
  let ?s = "ex_store ?c (ex_stats 0 None)"
  have v: "(7::int) \<notin> {0, 1, 2, 3}"
    and d: "load_deck ''d'' ?s = Some (ex_deck ''d'' ?c)"
    and f: "find_card ''d-0'' (d_cards (ex_deck ''d'' ?c)) 0 = Some (0, ?c)"
    and a: "add_days (day 738885) (get_interval ?c) = Inr (day 738886)"
    and a1: "add_days (day 738885) 1 = Inr (day 738886)"
    by (simp_all add: ex_defs)
  have g: "get_interval ?c = 1" "get_ease ?c = 5 / 2" "get_reps ?c = 0"
    by (simp_all add: ex_defs)
  from invalid_rating_still_reviews [OF v d f, of "day 738885"]
  have "fst (projr (update_card (day 738885) ''d'' ''d-0'' 7 ?s)) =
      ?c\<lparr>c_interval := Some 1, c_ease := Some (5 / 2), c_reps := Some 1,
          c_due := Some (day 738886), c_lastReview := Some (day 738885),
          c_lastRating := Some 7\<rparr>"
    by (simp add: a1 g round2_2_5)
  with v d f a show ?thesis by (intro conjI)
qed

section \<open>Statistics\<close>

text \<open>
  C4. After every successful \<open>update_card\<close>: the streak is one more than before when
  \<open>lastStudy\<close> is the day before the review date, 1 when \<open>lastStudy\<close> is more than one
  day before it or absent, unchanged when \<open>lastStudy\<close> is the review date; in each case
  \<open>totalReviews\<close> and the activity count of the review date are one more than before
  (a missing counter counting as 0).
\<close>

theorem streak_and_counters:
  assumes "update_card now did cid rating s = Inr (c', s')"
  shows "(lastStudy (stats (load_decks s)) = Some (date_of now - 1) \<longrightarrow>
            streak (stats (load_decks s')) = Some (get0 (streak (stats (load_decks s))) + 1)) \<and>
         (\<forall>l. lastStudy (stats (load_decks s)) = Some l \<longrightarrow> l < date_of now - 1 \<longrightarrow>
            streak (stats (load_decks s')) = Some 1) \<and>
         (lastStudy (stats (load_decks s)) = None \<longrightarrow>
            streak (stats (load_decks s')) = Some 1) \<and>
         (lastStudy (stats (load_decks s)) = Some (date_of now) \<longrightarrow>
            streak (stats (load_decks s')) = streak (stats (load_decks s))) \<and>
         totalReviews (stats (load_decks s')) =
            Some (get0 (totalReviews (stats (load_decks s))) + 1) \<and>
         (\<exists>a'. activity (stats (load_decks s')) = Some a' \<and>
            a' (date_of now) =
              Some (get0 (case activity (stats (load_decks s)) of
                            None \<Rightarrow> None | Some a \<Rightarrow> a (date_of now)) + 1))"
proof -
  from assms obtain d k c
    where "load_deck did s = Some d" and "find_card cid (d_cards d) 0 = Some (k, c)"
      and "review_card now rating c = Inr c'"
      and "s' = save_decks ((load_decks s)\<lparr>stats := update_stats now (stats (load_decks s))\<rparr>)
                   (save_deck did (d\<lparr>d_cards := (d_cards d)[k := c']\<rparr>) s)"
    by (rule update_card_Inr)
  then have st: "stats (load_decks s') = update_stats now (stats (load_decks s))" by simp
  show ?thesis
    unfolding st
    by (auto simp add: update_stats_def Let_def get0_def split: option.splits)
qed

theorem streak_and_counters_witness:
  "\<not> isl (update_card (day 738886) ''d'' ''d-0'' 2
       (ex_store (ex_card (Some 6) (Some (5 / 2)) (Some 2)) (ex_stats 3 (Some 738885)))) \<and>
   \<not> isl (update_card (day 738889) ''d'' ''d-0'' 2
       (ex_store (ex_card (Some 6) (Some (5 / 2)) (Some 2)) (ex_stats 3 (Some 738885)))) \<and>
   \<not> isl (update_card (day 738885) ''d'' ''d-0'' 2
       (ex_store (ex_card (Some 6) (Some (5 / 2)) (Some 2)) (ex_stats 3 (Some 738885)))) \<and>
   lastStudy (stats (load_decks
       (ex_store (ex_card (Some 6) (Some (5 / 2)) (Some 2)) (ex_stats 3 (Some 738885)))))
     = Some (date_of (day 738886) - 1) \<and>
   streak (stats (load_decks (snd (projr (update_card (day 738886) ''d'' ''d-0'' 2
       (ex_store (ex_card (Some 6) (Some (5 / 2)) (Some 2)) (ex_stats 3 (Some 738885))))))))
     = Some 4 \<and>
   738885 < date_of (day 738889) - 1 \<and>
   streak (stats (load_decks (snd (projr (update_card (day 738889) ''d'' ''d-0'' 2
       (ex_store (ex_card (Some 6) (Some (5 / 2)) (Some 2)) (ex_stats 3 (Some 738885))))))))
     = Some 1 \<and>
   lastStudy (stats (load_decks
       (ex_store (ex_card (Some 6) (Some (5 / 2)) (Some 2)) (ex_stats 3 (Some 738885)))))
     = Some (date_of (day 738885)) \<and>
   streak (stats (load_decks (snd (projr (update_card (day 738885) ''d'' ''d-0'' 2
       (ex_store (ex_card (Some 6) (Some (5 / 2)) (Some 2)) (ex_stats 3 (Some 738885))))))))
     = Some 3 \<and>
   totalReviews (stats (load_decks (snd (projr (update_card (day 738886) ''d'' ''d-0'' 2
       (ex_store (ex_card (Some 6) (Some (5 / 2)) (Some 2)) (ex_stats 3 (Some 738885))))))))
     = Some 4"
proof -
  let ?s = "ex_store (ex_card (Some 6) (Some (5 / 2)) (Some 2)) (ex_stats 3 (Some 738885))"
  let ?u1 = "update_card (day 738886) ''d'' ''d-0'' 2 ?s"
  let ?u2 = "update_card (day 738889) ''d'' ''d-0'' 2 ?s"
  let ?u3 = "update_card (day 738885) ''d'' ''d-0'' 2 ?s"
  have i: "\<not> isl ?u1" "\<not> isl ?u2" "\<not> isl ?u3"
    by (simp_all add: ex_defs update_card_def review_card_def sm2_third_good round2_2_5
        update_stats_def Let_def)
  note u = i [THEN not_isl_Inr]
  have l: "lastStudy (stats (load_decks ?s)) = Some (date_of (day 738886) - 1)"
    "lastStudy (stats (load_decks ?s)) = Some 738885"
    "738885 < date_of (day 738889) - 1"
    "lastStudy (stats (load_decks ?s)) = Some (date_of (day 738885))"
    and g: "streak (stats (load_decks ?s)) = Some 3"
    "totalReviews (stats (load_decks ?s)) = Some 3"
    by (simp_all add: ex_defs)
  note T1 = streak_and_counters [OF u(1)]
  note T2 = streak_and_counters [OF u(2)]
  note T3 = streak_and_counters [OF u(3)]
  have e1: "streak (stats (load_decks (snd (projr ?u1)))) = Some 4"
    using T1 [THEN conjunct1, rule_format, OF l(1)] by (simp add: g get0_def)
  have e2: "streak (stats (load_decks (snd (projr ?u2)))) = Some 1"
    using T2 [THEN conjunct2, THEN conjunct1, rule_format, OF l(2,3)] .
  have e3: "streak (stats (load_decks (snd (projr ?u3)))) = Some 3"
    using T3 [THEN conjunct2, THEN conjunct2, THEN conjunct2, THEN conjunct1, rule_format, OF l(4)]
    by (simp only: g)
  have e4: "totalReviews (stats (load_decks (snd (projr ?u1)))) = Some 4"
    using T1 [THEN conjunct2, THEN conjunct2, THEN conjunct2, THEN conjunct2, THEN conjunct1]
    by (simp add: g get0_def)
  from i l(1,3,4) e1 e2 e3 e4 show ?thesis by (intro conjI)
qed

section \<open>Due cards\<close>







section \<open>Orphaned index entries\<close>

lemma decks_due_loop_filter:
  "decks_due_loop now s (filter (\<lambda>m. load_deck (m_id m) s \<noteq> None) metas) acc =
     decks_due_loop now s metas acc"
  by (induction metas arbitrary: acc) (simp_all del: not_None_eq split: option.splits)

lemma deck_count_loop_filter:
  "deck_count_loop now s (filter (\<lambda>m. load_deck (m_id m) s \<noteq> None) metas) acc =
     deck_count_loop now s metas acc"
proof (induction metas arbitrary: acc)
  case Nil
  then show ?case by simp
next
  case (Cons m metas)
  obtain a b c d where acc: "acc = (a, b, c, d)" by (cases acc)
  show ?case
    by (cases "load_deck (m_id m) s") (simp_all add: acc Cons.IH del: not_None_eq split: prod.splits)
qed

lemma decks_due_loop_cong:
  "deck_files s' = deck_files s \<Longrightarrow> decks_due_loop now s' metas acc = decks_due_loop now s metas acc"
  by (induction metas arbitrary: acc) (simp_all add: load_deck_def split: option.splits)

lemma deck_count_loop_cong:
  assumes "deck_files s' = deck_files s"
  shows "deck_count_loop now s' metas acc = deck_count_loop now s metas acc"
proof (induction metas arbitrary: acc)
  case Nil
  then show ?case by simp
next
  case (Cons m metas)
  obtain a b c d where acc: "acc = (a, b, c, d)" by (cases acc)
  show ?case
    using assms
    by (cases "deck_files s (m_id m)") (simp_all add: acc Cons.IH load_deck_def split: prod.splits)
qed

text \<open>
  C9. Index entries whose deck record is missing are skipped without an error:
  \<open>get_due_cards\<close> over all decks and \<open>get_dashboard_data\<close> return what they return
  for the index without those entries.
\<close>

theorem orphaned_entries_skipped:
  "get_due_cards now None s =
     get_due_cards now None
       (s\<lparr>index_file := Some ((load_decks s)
          \<lparr>decks := filter (\<lambda>m. load_deck (m_id m) s \<noteq> None) (decks (load_decks s))\<rparr>)\<rparr>) \<and>
   get_dashboard_data now s =
     get_dashboard_data now
       (s\<lparr>index_file := Some ((load_decks s)
          \<lparr>decks := filter (\<lambda>m. load_deck (m_id m) s \<noteq> None) (decks (load_decks s))\<rparr>)\<rparr>)"
proof -
  let ?s' = "s\<lparr>index_file := Some ((load_decks s)
          \<lparr>decks := filter (\<lambda>m. load_deck (m_id m) s \<noteq> None) (decks (load_decks s))\<rparr>)\<rparr>"
  have f: "deck_files ?s' = deck_files s" by simp
  have l: "load_decks ?s' = (load_decks s)
          \<lparr>decks := filter (\<lambda>m. load_deck (m_id m) s \<noteq> None) (decks (load_decks s))\<rparr>"
    by (simp add: load_decks_def)
  have "get_due_cards now None ?s' = get_due_cards now None s"
    by (simp add: get_due_cards_def truthy_def l decks_due_loop_cong [OF f] decks_due_loop_filter
        del: not_None_eq)
  moreover have "get_dashboard_data now ?s' = get_dashboard_data now s"
    by (simp add: get_dashboard_data_def l deck_count_loop_cong [OF f] deck_count_loop_filter Let_def
        del: not_None_eq)
  ultimately show ?thesis by simp
qed

section \<open>Deletion\<close>



section \<open>Cards without scheduling fields\<close>

lemma get_with_defaults [simp]:
  "get_interval (with_defaults c) = get_interval c"
  "get_ease (with_defaults c) = get_ease c"
  "get_reps (with_defaults c) = get_reps c"
  "c_due (with_defaults c) = c_due c"
  "c_id (with_defaults c) = c_id c"
  by (simp_all add: with_defaults_def get_interval_def get_ease_def get_reps_def lit_2_5_val
      split: option.splits)

lemma review_card_with_defaults:
  "review_card now rating (with_defaults c) = review_card now rating c"
  by (simp add: review_card_def split: sum.splits prod.splits) (simp add: with_defaults_def)

lemma save_deck_twice [simp]: "save_deck did x (save_deck did y s) = save_deck did x s"
  by (simp add: save_deck_def)

lemma update_card_with_defaults:
  assumes "load_deck did s = Some d" and "find_card cid (d_cards d) 0 = Some (k, c)"
  shows "update_card now did cid rating
           (save_deck did (d\<lparr>d_cards := (d_cards d)[k := with_defaults c]\<rparr>) s) =
         update_card now did cid rating s"
proof -
  let ?d2 = "d\<lparr>d_cards := (d_cards d)[k := with_defaults c]\<rparr>"
  let ?s2 = "save_deck did ?d2 s"
  have "c_id (with_defaults c) = cid" using find_card_Some [OF assms(2)] by simp
  from find_card_update [OF assms(2) this]
  have f2: "find_card cid (d_cards ?d2) 0 = Some (k, with_defaults c)" by simp
  have d2: "load_deck did ?s2 = Some ?d2" by simp
  show ?thesis
    unfolding update_card_found [OF d2 f2] update_card_found [OF assms]
    by (simp add: review_card_with_defaults split: sum.splits)
qed

lemma sm2_defaults_hard: "sm2 1 (5 / 2) 0 1 = Inr (1, 5291729562160333 / 2251799813685248, 1)"
  by code_simp

lemma sm2_defaults:
  "\<not> isl (sm2 1 (5 / 2) 0 rating) \<and> 1 \<le> fst (projr (sm2 1 (5 / 2) 0 rating)) \<and>
   fst (projr (sm2 1 (5 / 2) 0 rating)) \<le> 4"
proof -
  consider "rating = 0" | "rating = 1" | "rating = 2" | "rating = 3" | "rating \<notin> {0, 1, 2, 3}"
    by auto
  then show ?thesis
  proof cases
    case 1 then show ?thesis by (simp add: sm2_def)
  next
    case 2 then show ?thesis by (simp add: sm2_defaults_hard)
  next
    case 3 then show ?thesis by (simp add: sm2_fresh_good)
  next
    case 4 then show ?thesis by (simp add: sm2_def)
  next
    case 5 then show ?thesis by (simp add: sm2_other_rating)
  qed
qed

lemma review_card_defaults:
  assumes "c_interval c = None" "c_ease c = None" "c_reps c = None"
    and "0 \<le> now" "now + 4 * usec_per_day \<le> max_datetime"
  shows "\<not> isl (review_card now rating c)"
proof -
  obtain i e r where sm: "sm2 1 (5 / 2) 0 rating = Inr (i, e, r)"
    using sm2_defaults [of rating] by (cases "sm2 1 (5 / 2) 0 rating") auto
  with sm2_defaults [of rating] have i: "1 \<le> i" "i \<le> 4" by simp_all
  have "add_days now i = Inr (now + i * usec_per_day)"
    using i assms(4,5) by (auto simp add: add_days_def Let_def usec_per_day_def max_datetime_def)
  then show ?thesis
    using sm assms(1-3)
    by (simp add: review_card_def get_interval_def get_ease_def get_reps_def lit_2_5_val)
qed

lemma card_count_loop_defaults:
  "card_count_loop now (map with_defaults cs) acc = card_count_loop now cs acc"
proof (induction cs arbitrary: acc)
  case Nil
  then show ?case by simp
next
  case (Cons c cs)
  obtain a1 a2 a3 a4 a5 a6 where acc: "acc = (a1, a2, a3, a4, a5, a6)"
    using prod_cases6 by blast
  show ?case by (simp add: acc Cons.IH Let_def split: option.splits)
qed

lemma deck_count_loop_defaults:
  assumes "\<And>did. load_deck did s' =
     map_option (\<lambda>d. d\<lparr>d_cards := map with_defaults (d_cards d)\<rparr>) (load_deck did s)"
  shows "deck_count_loop now s' metas acc = deck_count_loop now s metas acc"
proof (induction metas arbitrary: acc)
  case Nil
  then show ?case by simp
next
  case (Cons m metas)
  obtain a b c d where acc: "acc = (a, b, c, d)" using prod_cases4 by blast
  show ?case
    by (cases "load_deck (m_id m) s")
      (simp_all add: acc assms Cons.IH card_count_loop_defaults split: prod.splits)
qed

text \<open>
  C10. \<open>update_card\<close> treats a card that lacks \<open>interval\<close>, \<open>ease\<close> or \<open>reps\<close> as the
  card with \<open>interval = 1\<close>, \<open>ease = 2.5\<close>, \<open>reps = 0\<close> in their place: the result is
  the result for the store in which the defaults are written into the card. The review
  of a card lacking all three succeeds for every rating (as long as four days after
  \<open>now\<close> is a date of the calendar). \<open>get_dashboard_data\<close> returns the same dashboard,
  and so the same mastered count, as for the store with the defaults written into every
  card.
\<close>

theorem missing_fields_default:
  "(load_deck did s = Some d \<longrightarrow> find_card cid (d_cards d) 0 = Some (k, c) \<longrightarrow>
      update_card now did cid rating s =
      update_card now did cid rating
        (save_deck did (d\<lparr>d_cards := (d_cards d)[k := with_defaults c]\<rparr>) s)) \<and>
   (load_deck did s = Some d \<longrightarrow> find_card cid (d_cards d) 0 = Some (k, c) \<longrightarrow>
      c_interval c = None \<longrightarrow> c_ease c = None \<longrightarrow> c_reps c = None \<longrightarrow>
      0 \<le> now \<longrightarrow> now + 4 * usec_per_day \<le> max_datetime \<longrightarrow>
      \<not> isl (update_card now did cid rating s)) \<and>
   get_dashboard_data now s =
     get_dashboard_data now
       (s\<lparr>deck_files := (\<lambda>did. map_option (\<lambda>d. d\<lparr>d_cards := map with_defaults (d_cards d)\<rparr>)
                                    (deck_files s did))\<rparr>)"
proof (intro conjI impI)
  assume "load_deck did s = Some d" and "find_card cid (d_cards d) 0 = Some (k, c)"
  then show "update_card now did cid rating s =
      update_card now did cid rating
        (save_deck did (d\<lparr>d_cards := (d_cards d)[k := with_defaults c]\<rparr>) s)"
    by (rule update_card_with_defaults [symmetric])
next
  assume d: "load_deck did s = Some d" and f: "find_card cid (d_cards d) 0 = Some (k, c)"
    and m: "c_interval c = None" "c_ease c = None" "c_reps c = None"
    and t: "0 \<le> now" "now + 4 * usec_per_day \<le> max_datetime"
  from review_card_defaults [OF m t, of rating]
  show "\<not> isl (update_card now did cid rating s)"
    unfolding update_card_found [OF d f] by (cases "review_card now rating c") simp_all
next
  let ?s' = "s\<lparr>deck_files := (\<lambda>did. map_option (\<lambda>d. d\<lparr>d_cards := map with_defaults (d_cards d)\<rparr>)
                                    (deck_files s did))\<rparr>"
  have l: "load_deck did ?s' =
     map_option (\<lambda>d. d\<lparr>d_cards := map with_defaults (d_cards d)\<rparr>) (load_deck did s)" for did
    by (simp add: load_deck_def)
  have "load_decks ?s' = load_decks s" by (simp add: load_decks_def)
  then show "get_dashboard_data now s = get_dashboard_data now ?s'"
    by (simp add: get_dashboard_data_def Let_def deck_count_loop_defaults [OF l])
qed

theorem missing_fields_default_witness:
  "load_deck ''d'' (ex_store (ex_card None None None) (ex_stats 0 None))
     = Some (ex_deck ''d'' (ex_card None None None)) \<and>
   find_card ''d-0'' (d_cards (ex_deck ''d'' (ex_card None None None))) 0
     = Some (0, ex_card None None None) \<and>
   c_interval (ex_card None None None) = None \<and>
   c_ease (ex_card None None None) = None \<and>
   c_reps (ex_card None None None) = None \<and>
   0 \<le> day 738885 \<and> day 738885 + 4 * usec_per_day \<le> max_datetime \<and>
   \<not> isl (update_card (day 738885) ''d'' ''d-0'' 2
            (ex_store (ex_card None None None) (ex_stats 0 None))) \<and>
   update_card (day 738885) ''d'' ''d-0'' 2 (ex_store (ex_card None None None) (ex_stats 0 None)) =
     update_card (day 738885) ''d'' ''d-0'' 2
       (save_deck ''d''
          ((ex_deck ''d'' (ex_card None None None))
             \<lparr>d_cards := (d_cards (ex_deck ''d'' (ex_card None None None)))
                [0 := with_defaults (ex_card None None None)]\<rparr>)
          (ex_store (ex_card None None None) (ex_stats 0 None))) \<and>
   with_defaults (ex_card None None None) = ex_card (Some 1) (Some (5 / 2)) (Some 0) \<and>
   c_interval (fst (projr (update_card (day 738885) ''d'' ''d-0'' 2
            (ex_store (ex_card None None None) (ex_stats 0 None))))) = Some 1 \<and>
   c_ease (fst (projr (update_card (day 738885) ''d'' ''d-0'' 2
            (ex_store (ex_card None None None) (ex_stats 0 None))))) = Some (5 / 2) \<and>
   c_reps (fst (projr (update_card (day 738885) ''d'' ''d-0'' 2
            (ex_store (ex_card None None None) (ex_stats 0 None))))) = Some 1 \<and>
   db_mastered (get_dashboard_data (day 738885)
            (ex_store (ex_card None None None) (ex_stats 0 None))) = 0"
proof -
  let ?c = "ex_card None None None"
  let ?s = "ex_store ?c (ex_stats 0 None)"
  have d: "load_deck ''d'' ?s = Some (ex_deck ''d'' ?c)"
    and f: "find_card ''d-0'' (d_cards (ex_deck ''d'' ?c)) 0 = Some (0, ?c)"
    and m: "c_interval ?c = None" "c_ease ?c = None" "c_reps ?c = None"
    and t: "0 \<le> day 738885" "day 738885 + 4 * usec_per_day \<le> max_datetime"
    and w: "with_defaults ?c = ex_card (Some 1) (Some (5 / 2)) (Some 0)"
    by (simp_all add: ex_defs with_defaults_def)
  note T = missing_fields_default [where did = "''d''" and cid = "''d-0''" and rating = 2
      and now = "day 738885" and k = 0 and s = ?s and d = "ex_deck ''d'' ?c" and c = ?c]
  note A = T [THEN conjunct1, rule_format, OF d f]
  note B = T [THEN conjunct2, THEN conjunct1, rule_format, OF d f m t]
  have e: "c_interval (fst (projr (update_card (day 738885) ''d'' ''d-0'' 2 ?s))) = Some 1"
    "c_ease (fst (projr (update_card (day 738885) ''d'' ''d-0'' 2 ?s))) = Some (5 / 2)"
    "c_reps (fst (projr (update_card (day 738885) ''d'' ''d-0'' 2 ?s))) = Some 1"
    by (simp_all add: ex_defs update_card_def review_card_def lit_2_5_val sm2_fresh_good
        round2_2_5 update_stats_def Let_def)
  have g: "db_mastered (get_dashboard_data (day 738885) ?s) = 0"
    by (simp add: ex_defs get_dashboard_data_def Let_def)
  from d f m t B A w e g show ?thesis by (intro conjI)
qed

end
